theory Spec2Isabelle
  imports Complex_Main "HOL-Library.Multiset"
begin

section \<open>The 100 m race of \<open>src/apps/race-100m/main.js\<close>\<close>

text \<open>
  The module keeps its state in top-level variables (\<open>runners\<close>, \<open>raceStarted\<close>,
  \<open>tStart\<close>, \<open>lastT\<close>, \<open>names\<close>, \<open>pbs\<close>) and changes it from event handlers: the
  click handlers \<open>startRace\<close> and \<open>resetRace\<close>, the timers that \<open>countdown\<close> schedules with
  \<open>setTimeout\<close>, and the callback of \<open>renderer.setAnimationLoop\<close>. The model is a record
  of these variables and one function per handler; an \<open>event\<close> names the handler the
  browser runs next, with the values the handler reads from its environment
  (\<open>performance.now()\<close>, the aspect ratio of the canvas).

  JavaScript numbers are modelled as \<open>real\<close>: arithmetic is exact here, and no statement
  below is about rounding or the infinities. The scene graph, the animation of the
  characters and the synthesis of the sounds are not modelled; of a sound only the fact
  that it was requested is kept (\<open>cues\<close>), and of a runner's \<open>object.position\<close> only
  the coordinate \<open>z\<close> along the track (the handlers write \<open>x = lanes[i]\<close> and \<open>y = 0\<close>
  at load and at reset and nothing else). Of the page only the chips of the scoreboard
  are modelled, with the error that drawing them can raise: an error ends the handler
  that is running, and what the handler has written before stays written.
\<close>

subsection \<open>Track parameters\<close>

definition lanes :: "real list" where
  "lanes = [-4.5, -1.5, 1.5, 4.5]"

definition startZ :: real where
  "startZ = 0"

definition finishZ :: real where
  "finishZ = 100"

subsection \<open>Runners\<close>

record runner =
  lane :: nat
  posZ :: real
  speed :: real
  finished :: bool
  tFinish :: "real option"

text \<open>
  \<open>loadRunners\<close> builds one runner per entry of \<open>sources\<close> (four of them), in lane
  order whatever the order in which the models finish loading (\<open>Promise.all\<close>). Each
  asynchronous body calls \<open>Math.random()\<close> once; \<open>u i\<close> is the value it returned in the
  body of index \<open>i\<close>. The speed is the exact sum here; the program rounds the product and
  the sum to doubles.
\<close>

definition loadRunner :: "(nat \<Rightarrow> real) \<Rightarrow> nat \<Rightarrow> runner" where
  "loadRunner u i =
     \<lparr>lane = i + 1, posZ = startZ, speed = 6.5 + u i * 2.2, finished = False, tFinish = None\<rparr>"

definition loadRunners :: "(nat \<Rightarrow> real) \<Rightarrow> runner list" where
  "loadRunners u = map (loadRunner u) [0..<4]"

subsection \<open>Names and personal bests\<close>

text \<open>
  \<open>loadNames\<close> takes what \<open>JSON.parse\<close> made of the stored item, \<open>None\<close> when the item
  is missing, is not JSON or is not an array; the entries are taken to be strings, as
  \<open>saveNames\<close> writes them.
\<close>

definition defaultNames :: "string list" where
  "defaultNames = [''Lane 1'', ''Lane 2'', ''Lane 3'', ''Lane 4'']"

definition loadNames :: "string list option \<Rightarrow> string list" where
  "loadNames stored =
     (case stored of
        None \<Rightarrow> defaultNames
      | Some arr \<Rightarrow> if length arr \<ge> 4 then take 4 arr else defaultNames)"

text \<open>
  The table \<open>pbs\<close> is a JavaScript object, and \<open>pbs[name]\<close> is not a lookup in a map of
  numbers only. What it can give is a number, \<open>null\<close>, or something else: a string, a
  boolean, an array or an object that \<open>JSON.parse\<close> took from the storage, or a function
  or object that the table inherits. Of such a value the program uses two things: it is
  not \<open>null\<close>, and in a comparison with a number it counts as the number that \<open>ToNumber\<close>
  makes of it, which \<open>PBOther\<close> carries (\<open>None\<close> stands for NaN).
\<close>

datatype pbValue = PBNumber real | PBNull | PBOther "real option"

text \<open>
  The own properties of the table are a map. \<open>loadPBs\<close> takes the plain object that
  \<open>JSON.parse\<close> made of the stored item, \<open>None\<close> when the item is missing, is not JSON
  or is not an object; then the table is \<open>{}\<close>.
\<close>

definition loadPBs :: "(string \<rightharpoonup> pbValue) option \<Rightarrow> (string \<rightharpoonup> pbValue)" where
  "loadPBs stored = (case stored of None \<Rightarrow> Map.empty | Some obj \<Rightarrow> obj)"

text \<open>
  A plain object inherits the properties of \<open>Object.prototype\<close>. Eleven of them are
  functions and \<open>__proto__\<close> gives \<open>Object.prototype\<close> itself; \<open>ToNumber\<close> makes NaN of
  each.
\<close>

definition objectPrototypeNames :: "string list" where
  "objectPrototypeNames =
     [''constructor'', ''hasOwnProperty'', ''isPrototypeOf'', ''propertyIsEnumerable'',
      ''toLocaleString'', ''toString'', ''valueOf'', ''__proto__'',
      ''__defineGetter__'', ''__defineSetter__'', ''__lookupGetter__'', ''__lookupSetter__'']"

text \<open>
  \<open>pbs[name]\<close>: the own property if there is one, else the inherited one, else
  \<open>undefined\<close>, which is \<open>None\<close>.
\<close>

definition lookupPB :: "(string \<rightharpoonup> pbValue) \<Rightarrow> string \<Rightarrow> pbValue option" where
  "lookupPB pb name =
     (case pb name of
        Some v \<Rightarrow> Some v
      | None \<Rightarrow> if name \<in> set objectPrototypeNames then Some (PBOther None) else None)"

text \<open>\<open>prev == null\<close> holds of \<open>undefined\<close> and of \<open>null\<close>, and of nothing else.\<close>

definition nullish :: "pbValue option \<Rightarrow> bool" where
  "nullish prev = (prev = None \<or> prev = Some PBNull)"

text \<open>
  \<open>t < prev\<close> for a number \<open>t\<close>: \<open>prev\<close> is made a number (\<open>undefined\<close> is NaN, \<open>null\<close> is 0)
  and a comparison with NaN is false.
\<close>

definition numberLess :: "real \<Rightarrow> pbValue option \<Rightarrow> bool" where
  "numberLess t prev =
     (case prev of
        None \<Rightarrow> False
      | Some (PBNumber p) \<Rightarrow> t < p
      | Some PBNull \<Rightarrow> t < 0
      | Some (PBOther None) \<Rightarrow> False
      | Some (PBOther (Some p)) \<Rightarrow> t < p)"

text \<open>The template literal \<open>`Lane ${r.lane}`\<close> prints the lane in decimal.\<close>

fun digitsOf :: "nat \<Rightarrow> string" where
  "digitsOf n =
     (if n < 10 then [''0123456789'' ! n]
      else digitsOf (n div 10) @ [''0123456789'' ! (n mod 10)])"

declare digitsOf.simps [simp del]

text \<open>
  \<open>names[r.lane - 1] || `Lane ${r.lane}`\<close>: an index outside the array gives
  \<open>undefined\<close> and the empty string is falsy, so both fall back to the default label.
\<close>

definition displayName :: "string list \<Rightarrow> nat \<Rightarrow> string" where
  "displayName ns k =
     (if 1 \<le> k \<and> k - 1 < length ns \<and> ns ! (k - 1) \<noteq> []
      then ns ! (k - 1)
      else ''Lane '' @ digitsOf k)"

text \<open>The test \<open>prev == null || r.tFinish < prev\<close> of \<open>finalizePBs\<close>.\<close>

definition improvesOn :: "real \<Rightarrow> pbValue option \<Rightarrow> bool" where
  "improvesOn t prev = (nullish prev \<or> numberLess t prev)"

text \<open>
  The body of the loop of \<open>finalizePBs\<close>, for one runner. The assignment makes or
  changes an own property; it is not reached for a name that is inherited only, where
  the test is false.
\<close>

definition finalizeOne ::
  "string list \<Rightarrow> runner \<Rightarrow> (string \<rightharpoonup> pbValue) \<Rightarrow> (string \<rightharpoonup> pbValue)" where
  "finalizeOne ns r pb =
     (case tFinish r of
        None \<Rightarrow> pb
      | Some t \<Rightarrow>
          if improvesOn t (lookupPB pb (displayName ns (lane r)))
          then pb(displayName ns (lane r) \<mapsto> PBNumber t)
          else pb)"

definition finalizePBs ::
  "string list \<Rightarrow> runner list \<Rightarrow> (string \<rightharpoonup> pbValue) \<Rightarrow> (string \<rightharpoonup> pbValue)" where
  "finalizePBs ns rs pb = fold (finalizeOne ns) rs pb"

subsection \<open>The scoreboard\<close>

text \<open>The comparator that \<open>updateScores\<close> passes to \<open>sort\<close>.\<close>

definition compareRunners :: "runner \<Rightarrow> runner \<Rightarrow> real" where
  "compareRunners a b =
     (case (tFinish a, tFinish b) of
        (None, None) \<Rightarrow> 0
      | (None, Some tb) \<Rightarrow> 1
      | (Some ta, None) \<Rightarrow> -1
      | (Some ta, Some tb) \<Rightarrow> ta - tb)"

text \<open>
  \<open>Array.prototype.sort\<close> is the library's: ECMAScript requires it to be stable, and with
  a consistent comparator the result is ordered by it. It is modelled by a stable
  insertion sort: an element goes in front of the first later element that the
  comparator does not put before it.
\<close>

fun insertBy :: "('a \<Rightarrow> 'a \<Rightarrow> real) \<Rightarrow> 'a \<Rightarrow> 'a list \<Rightarrow> 'a list" where
  "insertBy cmp a [] = [a]"
| "insertBy cmp a (b # bs) = (if cmp a b \<le> 0 then a # b # bs else b # insertBy cmp a bs)"

definition sortBy :: "('a \<Rightarrow> 'a \<Rightarrow> real) \<Rightarrow> 'a list \<Rightarrow> 'a list" where
  "sortBy cmp xs = foldr (insertBy cmp) xs []"

definition sortedRunners :: "runner list \<Rightarrow> runner list" where
  "sortedRunners rs = sortBy compareRunners rs"

text \<open>
  One chip of the scoreboard: the name, the time (\<open>None\<close> is shown as a dash), the index
  of the medal in the array of three medals, and the personal best of that name, if the
  table gives one.
\<close>

record chip =
  chipName :: string
  chipTime :: "real option"
  chipMedal :: "nat option"
  chipPB :: "real option"

text \<open>
  The personal best is printed with \<open>pb.toFixed(2)\<close> unless \<open>pb\<close> is \<open>null\<close> or
  \<open>undefined\<close>. Only a number has the method \<open>toFixed\<close>: for any other value the call
  raises a TypeError.
\<close>

datatype error = TypeError

definition chipOf ::
  "string list \<Rightarrow> (string \<rightharpoonup> pbValue) \<Rightarrow> nat \<Rightarrow> runner \<Rightarrow> error + chip" where
  "chipOf ns pb i r =
     (case lookupPB pb (displayName ns (lane r)) of
        Some (PBOther n) \<Rightarrow> Inl TypeError
      | Some (PBNumber p) \<Rightarrow>
          Inr \<lparr>chipName = displayName ns (lane r),
               chipTime = tFinish r,
               chipMedal = (if tFinish r \<noteq> None \<and> i < 3 then Some i else None),
               chipPB = Some p\<rparr>
      | _ \<Rightarrow>
          Inr \<lparr>chipName = displayName ns (lane r),
               chipTime = tFinish r,
               chipMedal = (if tFinish r \<noteq> None \<and> i < 3 then Some i else None),
               chipPB = None\<rparr>)"

text \<open>
  The loop of \<open>updateScores\<close> over the sorted runners, from index \<open>i\<close> on: the chips it
  appends to the emptied scoreboard, and the error that stops it, if one does. The chips
  appended before the error stay on the board.
\<close>

fun drawChips ::
  "string list \<Rightarrow> (string \<rightharpoonup> pbValue) \<Rightarrow> nat \<Rightarrow> runner list \<Rightarrow> chip list \<times> error option" where
  "drawChips ns pb i [] = ([], None)"
| "drawChips ns pb i (r # rs) =
     (case chipOf ns pb i r of
        Inl e \<Rightarrow> ([], Some e)
      | Inr c \<Rightarrow> (case drawChips ns pb (Suc i) rs of (cs, e) \<Rightarrow> (c # cs, e)))"

text \<open>
  \<open>updateScores\<close> changes the scoreboard and no variable of the module. \<open>resetRace\<close>,
  the handler that saves the names and \<open>finalizePBs\<close> call it as their last statement,
  so that an error it raises there leaves their writes as they are. The animation loop
  calls it inside its loop over the runners, where an error ends the loop
  (\<open>advanceLoop\<close> below).
\<close>

definition updateScores ::
  "string list \<Rightarrow> (string \<rightharpoonup> pbValue) \<Rightarrow> runner list \<Rightarrow> chip list \<times> error option" where
  "updateScores ns pb rs = drawChips ns pb 0 (sortedRunners rs)"

subsection \<open>Camera framing\<close>

record vec3 =
  vx :: real
  vy :: real
  vz :: real

record camera =
  camPosition :: vec3
  camLookAt :: vec3

text \<open>
  Three functions of the library three.js, as it documents them:
  \<open>MathUtils.degToRad\<close> multiplies by \<open>\<pi>/180\<close>, \<open>MathUtils.clamp(value, min, max)\<close> is
  \<open>Math.max(min, Math.min(max, value))\<close>, and \<open>Vector3.lerp(v, alpha)\<close> moves each
  coordinate by \<open>alpha\<close> times its distance to \<open>v\<close>.
\<close>

definition degToRad :: "real \<Rightarrow> real" where
  "degToRad degrees = degrees * (pi / 180)"

definition clamp :: "real \<Rightarrow> real \<Rightarrow> real \<Rightarrow> real" where
  "clamp v lo hi = max lo (min hi v)"

definition lerp :: "vec3 \<Rightarrow> vec3 \<Rightarrow> real \<Rightarrow> vec3" where
  "lerp p v alpha =
     \<lparr>vx = vx p + (vx v - vx p) * alpha,
      vy = vy p + (vy v - vy p) * alpha,
      vz = vz p + (vz v - vz p) * alpha\<rparr>"

text \<open>
  \<open>Math.min(...xs)\<close> and \<open>Math.max(...xs)\<close> of a non-empty list. Without arguments
  they are the infinities, for which the equations say nothing; \<open>lanes\<close> is a non-empty
  literal, and \<open>fitCameraToTrack\<close> asks for the minimum under the guard
  \<open>runners.length\<close> only.
\<close>

fun mathMin :: "real list \<Rightarrow> real" where
  "mathMin (a # as) = fold min as a"

fun mathMax :: "real list \<Rightarrow> real" where
  "mathMax (a # as) = fold max as a"

definition trackMinX :: real where
  "trackMinX = mathMin lanes - 1.8"

definition trackMaxX :: real where
  "trackMaxX = mathMax lanes + 1.8"

definition trackWidth :: real where
  "trackWidth = trackMaxX - trackMinX"

text \<open>The camera is built with a vertical field of view of 62 degrees.\<close>

definition cameraFov :: real where
  "cameraFov = 62"

definition camera0 :: camera where
  "camera0 = \<lparr>camPosition = \<lparr>vx = 0, vy = 10, vz = -18\<rparr>,
              camLookAt = \<lparr>vx = 0, vy = 1.2, vz = 20\<rparr>\<rparr>"

text \<open>
  The locals \<open>d\<close> and \<open>focusZ\<close> of \<open>fitCameraToTrack\<close>, as functions of what they are
  computed from: the aspect ratio \<open>canvas.clientWidth / canvas.clientHeight\<close>, the
  argument \<open>avgZ\<close> and the runners.
\<close>

definition cameraDistance :: "real \<Rightarrow> real" where
  "cameraDistance aspect =
     clamp ((trackWidth / 2) * 1.1 / (tan (degToRad cameraFov / 2) * aspect)) 7 16"

definition cameraFocusZ :: "real \<Rightarrow> runner list \<Rightarrow> real" where
  "cameraFocusZ avgZ rs = (if rs \<noteq> [] then mathMin (map posZ rs) else avgZ)"

definition fitCameraToTrack :: "real \<Rightarrow> real \<Rightarrow> runner list \<Rightarrow> camera \<Rightarrow> camera" where
  "fitCameraToTrack aspect avgZ rs cam =
     \<lparr>camPosition =
        lerp (camPosition cam)
          \<lparr>vx = 0,
           vy = max 5 (cameraDistance aspect * 0.28),
           vz = (cameraFocusZ avgZ rs + 2) - cameraDistance aspect * 0.8\<rparr>
          0.12,
      camLookAt = \<lparr>vx = 0, vy = 1.6, vz = cameraFocusZ avgZ rs + 2\<rparr>\<rparr>"

text \<open>The average that the animation loop passes to \<open>fitCameraToTrack\<close>.\<close>

definition averageZ :: "runner list \<Rightarrow> real" where
  "averageZ rs =
     (if rs \<noteq> [] then fold (\<lambda>r s. s + posZ r) rs 0 / real (length rs) else 0)"

subsection \<open>The state of the module\<close>

text \<open>
  A call of \<open>countdown\<close> that has not resolved yet owns one pending timer. \<open>cdI\<close> is the
  variable \<open>i\<close> of its closure; \<open>cdGap\<close> tells which timer is pending: the one of \<open>ms\<close>
  milliseconds that hides the label (\<open>False\<close>), or the one of 120 milliseconds that
  calls \<open>step\<close> (\<open>True\<close>).
\<close>

record countdown =
  cdLabels :: "string list"
  cdI :: nat
  cdGap :: bool

text \<open>The calls of \<open>playCountBeep\<close> and \<open>playGunshot\<close>, in the order they are made.\<close>

datatype cue = CountBeep string | Gunshot

record state =
  runners :: "runner list"
  raceStarted :: bool
  tStart :: real
  lastT :: real
  names :: "string list"
  pbs :: "string \<rightharpoonup> pbValue"
  countdowns :: "countdown list"
  cues :: "cue list"
  cam :: camera

text \<open>
  The variables when the module has loaded the runners and read the clock for \<open>lastT\<close>.
  Before it installs its handlers the module draws the scoreboard once; if that raises an
  error the module stops there, no handler is ever installed, and the page makes none of
  the runs that the model makes from such a state.
\<close>

definition initState ::
  "(nat \<Rightarrow> real) \<Rightarrow> string list option \<Rightarrow> (string \<rightharpoonup> pbValue) option \<Rightarrow> real \<Rightarrow> state" where
  "initState u storedNames storedPBs now =
     \<lparr>runners = loadRunners u, raceStarted = False, tStart = 0, lastT = now,
      names = loadNames storedNames, pbs = loadPBs storedPBs,
      countdowns = [], cues = [], cam = camera0\<rparr>"

subsection \<open>The handlers\<close>

text \<open>
  The callback that \<open>startRace\<close> chains to the countdown with \<open>then\<close>. It runs as a
  microtask right after the step that resolves the promise, before any other handler.
\<close>

definition raceGo :: "real \<Rightarrow> state \<Rightarrow> state" where
  "raceGo now s = s\<lparr>cues := cues s @ [Gunshot], tStart := now, raceStarted := True\<rparr>"

text \<open>
  The closure \<open>step\<close> of \<open>countdown\<close>, for the countdown at position \<open>k\<close> of the pending
  ones: past the last label it resolves the promise (the countdown is over and
  \<open>raceGo\<close> runs); otherwise it shows the next label, calls \<open>onTick\<close>, which is
  \<open>playCountBeep\<close>, and schedules the timer that hides the label.
\<close>

definition countdownStep :: "real \<Rightarrow> nat \<Rightarrow> state \<Rightarrow> state" where
  "countdownStep now k s =
     (let c = countdowns s ! k in
      if cdI c \<ge> length (cdLabels c)
      then raceGo now (s\<lparr>countdowns := take k (countdowns s) @ drop (Suc k) (countdowns s)\<rparr>)
      else s\<lparr>cues := cues s @ [CountBeep (cdLabels c ! cdI c)],
             countdowns := (countdowns s)[k := c\<lparr>cdI := Suc (cdI c), cdGap := False\<rparr>]\<rparr>)"

text \<open>
  \<open>startRace\<close>: after the guard, \<open>countdown\<close> makes the closure with \<open>i = 0\<close> and
  calls \<open>step\<close> at once, which shows the first of the four labels. (\<open>now\<close> is what
  \<open>performance.now()\<close> would give the callback of \<open>then\<close> if \<open>step\<close> resolved the
  promise at once; with four labels it does not.) \<open>ensureAudio\<close> has made the audio
  engine before, so that \<open>playCountBeep\<close> and \<open>playGunshot\<close> do not return early.
\<close>

definition startRace :: "real \<Rightarrow> state \<Rightarrow> state" where
  "startRace now s =
     (if raceStarted s then s
      else countdownStep now (length (countdowns s))
             (s\<lparr>countdowns := countdowns s @
                  [\<lparr>cdLabels = [''3'', ''2'', ''1'', ''GO!''], cdI = 0, cdGap = False\<rparr>]\<rparr>))"

text \<open>
  The pending timer of the countdown at position \<open>k\<close> fires. No timer is pending for a
  position past the end, and nothing runs.
\<close>

definition timerFired :: "nat \<Rightarrow> real \<Rightarrow> state \<Rightarrow> state" where
  "timerFired k now s =
     (if k \<ge> length (countdowns s) then s
      else if cdGap (countdowns s ! k) then countdownStep now k s
      else s\<lparr>countdowns := (countdowns s)[k := (countdowns s ! k)\<lparr>cdGap := True\<rparr>]\<rparr>)"

text \<open>
  \<open>resetRace\<close>, and the body of its loop over the runners. It writes \<open>raceStarted\<close>,
  the text of the timer and the runners, and redraws the scoreboard; it has no access to
  the timers of a countdown.
\<close>

definition resetRunner :: "runner \<Rightarrow> runner" where
  "resetRunner r = r\<lparr>posZ := startZ, finished := False, tFinish := None\<rparr>"

definition resetRace :: "state \<Rightarrow> state" where
  "resetRace s = s\<lparr>raceStarted := False, runners := map resetRunner (runners s)\<rparr>"

text \<open>The writes of the body of the loop over the runners in the animation loop.\<close>

definition advance :: "real \<Rightarrow> real \<Rightarrow> runner \<Rightarrow> runner" where
  "advance dt elapsed r =
     (if finished r then r
      else if posZ r + speed r * dt \<ge> finishZ
      then r\<lparr>posZ := finishZ, finished := True, tFinish := Some elapsed\<rparr>
      else r\<lparr>posZ := posZ r + speed r * dt\<rparr>)"

text \<open>
  The loop itself, with the runners it has passed in \<open>before\<close>. For a runner that
  finishes in this frame the body ends with a call of \<open>updateScores\<close>, made when its
  three writes are done. If the call raises, the loop and the callback end there: the
  runners after this one are not advanced in this frame.
\<close>

fun advanceLoop ::
  "string list \<Rightarrow> (string \<rightharpoonup> pbValue) \<Rightarrow> real \<Rightarrow> real \<Rightarrow> runner list \<Rightarrow> runner list \<Rightarrow>
     runner list \<times> error option" where
  "advanceLoop ns pb dt elapsed before [] = (before, None)"
| "advanceLoop ns pb dt elapsed before (r # rs) =
     (if \<not> finished r \<and> posZ r + speed r * dt \<ge> finishZ
      then (case snd (updateScores ns pb (before @ advance dt elapsed r # rs)) of
              Some e \<Rightarrow> (before @ advance dt elapsed r # rs, Some e)
            | None \<Rightarrow> advanceLoop ns pb dt elapsed (before @ [advance dt elapsed r]) rs)
      else advanceLoop ns pb dt elapsed (before @ [advance dt elapsed r]) rs)"

text \<open>
  The part of the animation loop under \<open>if (raceStarted)\<close>. The test for the end of
  the race is made if the loop has ended without an error. \<open>finalizePBs\<close> ends with a
  call of \<open>updateScores\<close> too, after which the callback only draws.
\<close>

definition raceTick :: "real \<Rightarrow> real \<Rightarrow> state \<Rightarrow> state" where
  "raceTick dt now s =
     (case advanceLoop (names s) (pbs s) dt ((now - tStart s) / 1000) [] (runners s) of
        (rs, Some e) \<Rightarrow> s\<lparr>runners := rs\<rparr>
      | (rs, None) \<Rightarrow>
          if list_all finished rs
          then s\<lparr>runners := rs, raceStarted := False, pbs := finalizePBs (names s) rs (pbs s)\<rparr>
          else s\<lparr>runners := rs\<rparr>)"

text \<open>
  The callback of \<open>setAnimationLoop\<close>: it reads the clock, moves the camera from the
  positions the runners have before they advance, and advances the race if it is
  started. The calls \<open>r.gvrm.update()\<close> and \<open>renderer.render\<close> draw and are left out.
  Whether the library calls the callback again after an error is the library's matter;
  the model lets further frames come.
\<close>

definition frame :: "real \<Rightarrow> real \<Rightarrow> state \<Rightarrow> state" where
  "frame now aspect s =
     (let dt = min 0.05 ((now - lastT s) / 1000);
          s1 = s\<lparr>lastT := now,
                 cam := fitCameraToTrack aspect (averageZ (runners s)) (runners s) (cam s)\<rparr>
      in if raceStarted s1 then raceTick dt now s1 else s1)"

text \<open>
  The click handler of the button that saves the names typed in the settings; \<open>ns\<close> are
  the four names it reads from the input fields.
\<close>

definition saveNames :: "string list \<Rightarrow> state \<Rightarrow> state" where
  "saveNames ns s = s\<lparr>names := ns\<rparr>"

subsection \<open>Runs\<close>

text \<open>
  What the browser runs, one handler at a time: a click on the start button (or the space
  key) or on the reset button, the pending timer of the countdown at a position, a frame
  of the animation loop, a click on the button that saves the names. The real numbers
  are the readings of \<open>performance.now()\<close> in milliseconds; the second one of a frame is
  the aspect ratio of the canvas.
\<close>

datatype event =
    Start real
  | Reset
  | Timer nat real
  | Frame real real
  | SaveNames "string list"

fun handle :: "event \<Rightarrow> state \<Rightarrow> state" where
  "handle (Start now) s = startRace now s"
| "handle Reset s = resetRace s"
| "handle (Timer k now) s = timerFired k now s"
| "handle (Frame now aspect) s = frame now aspect s"
| "handle (SaveNames ns) s = saveNames ns s"

definition run :: "event list \<Rightarrow> state \<Rightarrow> state" where
  "run es s = fold handle es s"

subsection \<open>Notions used in the statements\<close>


text \<open>
  \<open>recorded ns pb r\<close>: the finish time of \<open>r\<close>, if it has one, would not replace what the
  table gives for the name of \<open>r\<close>. \<open>replacedBy ns pb k r\<close>: the runner \<open>r\<close> has the name
  \<open>k\<close> and a finish time, and that time replaces what the table \<open>pb\<close> gives for \<open>k\<close>:
  nothing, \<open>null\<close>, or something that counts as a strictly larger number.
\<close>

definition recorded :: "string list \<Rightarrow> (string \<rightharpoonup> pbValue) \<Rightarrow> runner \<Rightarrow> bool" where
  "recorded ns pb r =
     (case tFinish r of
        None \<Rightarrow> True
      | Some t \<Rightarrow> \<not> improvesOn t (lookupPB pb (displayName ns (lane r))))"

definition replacedBy :: "string list \<Rightarrow> (string \<rightharpoonup> pbValue) \<Rightarrow> string \<Rightarrow> runner \<Rightarrow> bool" where
  "replacedBy ns pb k r =
     (displayName ns (lane r) = k \<and>
      (case tFinish r of
         None \<Rightarrow> False
       | Some t \<Rightarrow> improvesOn t (lookupPB pb k)))"

text \<open>
  \<open>consistent r\<close>: the three ways a runner tells that it has finished agree.
  \<open>onTrack r\<close>: the runner is between the two lines, and does not run backwards.
\<close>

definition consistent :: "runner \<Rightarrow> bool" where
  "consistent r =
     ((finished r \<longleftrightarrow> tFinish r \<noteq> None) \<and> (tFinish r \<noteq> None \<longleftrightarrow> finishZ \<le> posZ r))"

definition onTrack :: "runner \<Rightarrow> bool" where
  "onTrack r = (startZ \<le> posZ r \<and> posZ r \<le> finishZ \<and> 0 \<le> speed r)"

text \<open>
  The values of \<open>performance.now()\<close> that the animation loop reads during a run, in
  order. The clock of the browser is monotonic: with the value that initialised \<open>lastT\<close>
  in front, this list is sorted.
\<close>

fun frameTimes :: "event list \<Rightarrow> real list" where
  "frameTimes [] = []"
| "frameTimes (Frame now aspect # es) = now # frameTimes es"
| "frameTimes (e # es) = frameTimes es"

text \<open>
  How many more times the timer of a countdown fires: two timers for each label still
  to show, and those of the label on show (the one that hides it, if it is still
  pending, and the one that calls \<open>step\<close>).
\<close>

definition pendingFires :: "countdown \<Rightarrow> nat" where
  "pendingFires c = 2 * (length (cdLabels c) - cdI c) + (if cdGap c then 1 else 2)"

subsection \<open>Example states\<close>

text \<open>The four runners of a race that is over, in lane order.\<close>

definition finishedField :: "runner list" where
  "finishedField =
     [\<lparr>lane = 1, posZ = 100, speed = 7.0, finished = True, tFinish = Some 14.3\<rparr>,
      \<lparr>lane = 2, posZ = 100, speed = 7.5, finished = True, tFinish = Some 13.35\<rparr>,
      \<lparr>lane = 3, posZ = 100, speed = 8.0, finished = True, tFinish = Some 12.5\<rparr>,
      \<lparr>lane = 4, posZ = 100, speed = 6.8, finished = True, tFinish = Some 14.7\<rparr>]"

text \<open>A field in the middle of a race: lane 3 has finished, lane 2 is about to.\<close>

definition runningField :: "runner list" where
  "runningField =
     [\<lparr>lane = 1, posZ = 87.5, speed = 7.0, finished = False, tFinish = None\<rparr>,
      \<lparr>lane = 2, posZ = 99.9, speed = 7.5, finished = False, tFinish = None\<rparr>,
      \<lparr>lane = 3, posZ = 100, speed = 8.0, finished = True, tFinish = Some 12.5\<rparr>,
      \<lparr>lane = 4, posZ = 85, speed = 6.8, finished = False, tFinish = None\<rparr>]"

text \<open>
  Names as the settings panel can leave them (the third one empty), and a table of
  personal bests from earlier races.
\<close>

definition exampleNames :: "string list" where
  "exampleNames = [''Ana'', ''Bo'', [], ''Di'']"

definition examplePBs :: "string \<rightharpoonup> pbValue" where
  "examplePBs = [''Ana'' \<mapsto> PBNumber 12.5, ''Lane 3'' \<mapsto> PBNumber 13]"

text \<open>
  Names of which the second is the name of a property that every object inherits, and a
  table as a tampered storage can give it, with a string for a time.
\<close>

definition inheritedNames :: "string list" where
  "inheritedNames = [''Ana'', ''constructor'', ''Cy'', ''Di'']"

definition tamperedPBs :: "string \<rightharpoonup> pbValue" where
  "tamperedPBs = [''Ana'' \<mapsto> PBOther (Some 15), ''Di'' \<mapsto> PBNull]"

text \<open>
  A race in progress, 12.484 s after the gun: the next frames come at 13500 and 13516 ms,
  and lane 2 crosses the line in the first of them.
\<close>

definition midRace :: state where
  "midRace =
     \<lparr>runners = runningField, raceStarted = True, tStart = 1000, lastT = 13484,
      names = exampleNames, pbs = examplePBs, countdowns = [],
      cues = [CountBeep ''3'', CountBeep ''2'', CountBeep ''1'', CountBeep ''GO!'', Gunshot],
      cam = camera0\<rparr>"

text \<open>
  The same race when lane 2 has been given the name ``constructor'' and no personal best
  is stored.
\<close>

definition brokenBoard :: state where
  "brokenBoard = midRace\<lparr>names := inheritedNames, pbs := Map.empty\<rparr>"

text \<open>
  The page right after loading, at time 0, with nothing stored; the four calls of
  \<open>Math.random()\<close> returned 0, 0.25, 0.5 and 0.75, so the speeds are 6.5, 7.05, 7.6 and
  8.15 m/s.
\<close>

definition exampleInit :: state where
  "exampleInit = initState (\<lambda>i. real i / 4) None None 0"

text \<open>
  The eight timers of a countdown started at time \<open>t\<close> when it is the only one pending:
  each label is shown for 700 ms and followed by a gap of 120 ms.
\<close>

definition countdownTimers :: "real \<Rightarrow> event list" where
  "countdownTimers t =
     [Timer 0 (t + 700), Timer 0 (t + 820), Timer 0 (t + 1520), Timer 0 (t + 1640),
      Timer 0 (t + 2340), Timer 0 (t + 2460), Timer 0 (t + 3160), Timer 0 (t + 3280)]"

text \<open>A first race: start, the whole countdown, two frames.\<close>

definition firstAttempt :: "event list" where
  "firstAttempt = Start 0 # countdownTimers 0 @ [Frame 3300 1.5, Frame 3316 1.5]"

text \<open>Then a reset and a second race.\<close>

definition secondAttempt :: "event list" where
  "secondAttempt = [Reset, Start 5000] @ countdownTimers 5000 @ [Frame 8300 1.5]"

text \<open>
  A start, and a reset while the label ``3'' has just been hidden; then what the browser
  runs next when the user does nothing more: the other seven timers of the countdown,
  and a frame.
\<close>

definition resetTrace :: "event list" where
  "resetTrace = [Start 0, Timer 0 700, Reset]"

definition afterReset :: "event list" where
  "afterReset = drop 1 (countdownTimers 0) @ [Frame 3300 1.5]"

text \<open>
  Two clicks on the start button, 100 ms apart, and the timers of the two countdowns in
  the order of their deadlines. When the first countdown is over the second one is at
  position 0.
\<close>

definition doubleStart :: "event list" where
  "doubleStart =
     [Start 0, Start 100,
      Timer 0 700, Timer 1 800, Timer 0 820, Timer 1 920,
      Timer 0 1520, Timer 1 1620, Timer 0 1640, Timer 1 1740,
      Timer 0 2340, Timer 1 2440, Timer 0 2460, Timer 1 2560,
      Timer 0 3160, Timer 1 3260, Timer 0 3280, Timer 0 3380]"

section \<open>Properties\<close>

subsection \<open>The scoreboard is ranked\<close>












text \<open>
  The scenario of the specification: speeds 7.0, 7.5, 8.0 and 6.8 m/s give the order of
  lanes 3, 2, 1, 4; and a field with one finisher shows it first, then lanes 1, 2, 4.
\<close>

lemma sortedRunners_finishedField: "map lane (sortedRunners finishedField) = [3, 2, 1, 4]"
  by (simp add: sortedRunners_def sortBy_def compareRunners_def finishedField_def)

lemma sortedRunners_runningField: "map lane (sortedRunners runningField) = [3, 1, 2, 4]"
  by (simp add: sortedRunners_def sortBy_def compareRunners_def runningField_def)

subsection \<open>Personal bests\<close>

lemma lookupPB_upd:
  "lookupPB (pb(k \<mapsto> v)) k' = (if k' = k then Some v else lookupPB pb k')"
  by (simp add: lookupPB_def)

lemma lookupPB_cong: "pb' k = pb k \<Longrightarrow> lookupPB pb' k = lookupPB pb k"
  by (simp add: lookupPB_def)

lemma improvesOn_number: "improvesOn t (Some (PBNumber p)) \<longleftrightarrow> t < p"
  by (simp add: improvesOn_def nullish_def numberLess_def)

lemma improvesOn_below:
  "\<not> improvesOn t v \<Longrightarrow> improvesOn t' v \<Longrightarrow> t' < t"
  by (auto simp: improvesOn_def nullish_def numberLess_def split: option.splits pbValue.splits)

lemma improvesOn_trans:
  "t' < t \<Longrightarrow> improvesOn t v \<Longrightarrow> improvesOn t' v"
  by (auto simp: improvesOn_def nullish_def numberLess_def split: option.splits pbValue.splits)

lemma finalizeOne_at:
  "finalizeOne ns r pb k =
     (case tFinish r of
        None \<Rightarrow> pb k
      | Some t \<Rightarrow>
          if displayName ns (lane r) = k \<and> improvesOn t (lookupPB pb k)
          then Some (PBNumber t) else pb k)"
  by (auto simp: finalizeOne_def split: option.splits)

lemma finalizeOne_recorded: "recorded ns pb r \<Longrightarrow> finalizeOne ns r pb = pb"
  by (auto simp: recorded_def finalizeOne_def split: option.splits)

lemma finalizePBs_recorded: "\<forall>r\<in>set rs. recorded ns pb r \<Longrightarrow> finalizePBs ns rs pb = pb"
  by (induction rs) (auto simp: finalizePBs_def finalizeOne_recorded)

lemma recorded_finalizeOne: "recorded ns (finalizeOne ns r pb) r"
proof (cases "tFinish r")
  case None
  then show ?thesis by (simp add: recorded_def)
next
  case (Some t)
  show ?thesis
  proof (cases "improvesOn t (lookupPB pb (displayName ns (lane r)))")
    case True
    with Some have "finalizeOne ns r pb = pb(displayName ns (lane r) \<mapsto> PBNumber t)"
      by (simp add: finalizeOne_def)
    with Some show ?thesis
      by (simp add: recorded_def lookupPB_upd improvesOn_number)
  next
    case False
    with Some have "finalizeOne ns r pb = pb"
      by (simp add: finalizeOne_def)
    with Some False show ?thesis
      by (simp add: recorded_def)
  qed
qed

lemma recorded_kept: "recorded ns pb x \<Longrightarrow> recorded ns (finalizeOne ns r pb) x"
proof (cases "tFinish x")
  case None
  then show ?thesis by (simp add: recorded_def)
next
  case (Some tx)
  assume "recorded ns pb x"
  with Some have x: "\<not> improvesOn tx (lookupPB pb (displayName ns (lane x)))"
    by (simp add: recorded_def)
  show ?thesis
  proof (cases "finalizeOne ns r pb (displayName ns (lane x)) = pb (displayName ns (lane x))")
    case True
    then have "lookupPB (finalizeOne ns r pb) (displayName ns (lane x)) =
        lookupPB pb (displayName ns (lane x))"
      by (rule lookupPB_cong)
    with Some x show ?thesis by (simp add: recorded_def)
  next
    case False
    then obtain t where t: "tFinish r = Some t" "displayName ns (lane r) = displayName ns (lane x)"
      "improvesOn t (lookupPB pb (displayName ns (lane x)))"
      "finalizeOne ns r pb (displayName ns (lane x)) = Some (PBNumber t)"
      unfolding finalizeOne_at [of ns r pb "displayName ns (lane x)"]
      by (cases "tFinish r") (auto split: if_splits)
    from x t(3) have "t < tx" by (rule improvesOn_below)
    moreover from t(4) have "lookupPB (finalizeOne ns r pb) (displayName ns (lane x)) =
        Some (PBNumber t)"
      by (simp add: lookupPB_def)
    ultimately show ?thesis
      using Some by (simp add: recorded_def improvesOn_number)
  qed
qed

lemma recorded_kept_all: "recorded ns pb x \<Longrightarrow> recorded ns (finalizePBs ns rs pb) x"
  by (induction rs arbitrary: pb) (simp_all add: finalizePBs_def recorded_kept)

lemma recorded_finalizePBs: "\<forall>r\<in>set rs. recorded ns (finalizePBs ns rs pb) r"
proof (induction rs arbitrary: pb)
  case Nil
  show ?case by simp
next
  case (Cons r rs)
  have "recorded ns (finalizePBs ns rs (finalizeOne ns r pb)) r"
    using recorded_finalizeOne by (rule recorded_kept_all)
  moreover have "\<forall>x\<in>set rs. recorded ns (finalizePBs ns rs (finalizeOne ns r pb)) x"
    by (rule Cons.IH)
  ultimately show ?case by (simp add: finalizePBs_def)
qed

lemma finalizePBs_idem: "finalizePBs ns rs (finalizePBs ns rs pb) = finalizePBs ns rs pb"
  by (rule finalizePBs_recorded) (rule recorded_finalizePBs)

lemma finalizeOne_only:
  "finalizeOne ns r pb k = pb k \<or>
   (\<exists>t. tFinish r = Some t \<and> finalizeOne ns r pb k = Some (PBNumber t) \<and> replacedBy ns pb k r)"
  unfolding finalizeOne_at [of ns r pb k]
  by (cases "tFinish r") (auto simp: replacedBy_def)

lemma finalizePBs_only:
  "finalizePBs ns rs pb k = pb k \<or>
   (\<exists>r\<in>set rs. \<exists>t. tFinish r = Some t \<and> finalizePBs ns rs pb k = Some (PBNumber t) \<and>
      replacedBy ns pb k r)"
proof (induction rs arbitrary: pb)
  case Nil
  show ?case by (simp add: finalizePBs_def)
next
  case (Cons r rs)
  let ?pb1 = "finalizeOne ns r pb"
  let ?res = "finalizePBs ns rs ?pb1"
  have step: "finalizePBs ns (r # rs) pb = ?res"
    by (simp add: finalizePBs_def)
  consider (same) "?pb1 k = pb k"
    | (new) t where "tFinish r = Some t" "?pb1 k = Some (PBNumber t)" "replacedBy ns pb k r"
    using finalizeOne_only [of ns r pb k] by blast
  then show ?case
  proof cases
    case same
    then have l: "lookupPB ?pb1 k = lookupPB pb k" by (rule lookupPB_cong)
    from Cons.IH [of ?pb1] show ?thesis
    proof
      assume "?res k = ?pb1 k"
      with same show ?thesis unfolding step by simp
    next
      assume "\<exists>x\<in>set rs. \<exists>t. tFinish x = Some t \<and> ?res k = Some (PBNumber t) \<and>
          replacedBy ns ?pb1 k x"
      then obtain x t where x: "x \<in> set rs" "tFinish x = Some t" "?res k = Some (PBNumber t)"
        "replacedBy ns ?pb1 k x"
        by blast
      from x(4) have "replacedBy ns pb k x"
        unfolding replacedBy_def l .
      with x(1,2,3) show ?thesis unfolding step by auto
    qed
  next
    case new
    from new(2) have l: "lookupPB ?pb1 k = Some (PBNumber t)"
      by (simp add: lookupPB_def)
    from new(1,3) have b: "improvesOn t (lookupPB pb k)"
      by (simp add: replacedBy_def)
    from Cons.IH [of ?pb1] show ?thesis
    proof
      assume "?res k = ?pb1 k"
      with new show ?thesis unfolding step by auto
    next
      assume "\<exists>x\<in>set rs. \<exists>t. tFinish x = Some t \<and> ?res k = Some (PBNumber t) \<and>
          replacedBy ns ?pb1 k x"
      then obtain x tx where x: "x \<in> set rs" "tFinish x = Some tx" "?res k = Some (PBNumber tx)"
        "replacedBy ns ?pb1 k x"
        by blast
      from x(2,4) have n: "displayName ns (lane x) = k" and "tx < t"
        by (simp_all add: replacedBy_def l improvesOn_number)
      then have "improvesOn tx (lookupPB pb k)"
        using b by (auto intro: improvesOn_trans)
      with n x(2) have "replacedBy ns pb k x"
        by (simp add: replacedBy_def)
      with x(1,2,3) show ?thesis unfolding step by auto
    qed
  qed
qed

lemma finalizePBs_stores:
  assumes "r \<in> set rs" and "tFinish r = Some t" and "displayName ns (lane r) = k"
    and "improvesOn t (lookupPB pb k)"
  shows "\<exists>p. finalizePBs ns rs pb k = Some (PBNumber p) \<and> p \<le> t"
proof -
  from assms(1) recorded_finalizePBs have "recorded ns (finalizePBs ns rs pb) r"
    by blast
  with assms(2,3) have n: "\<not> improvesOn t (lookupPB (finalizePBs ns rs pb) k)"
    by (simp add: recorded_def)
  from finalizePBs_only [of ns rs pb k] show ?thesis
  proof
    assume "finalizePBs ns rs pb k = pb k"
    then have "lookupPB (finalizePBs ns rs pb) k = lookupPB pb k"
      by (rule lookupPB_cong)
    with n assms(4) show ?thesis by simp
  next
    assume "\<exists>x\<in>set rs. \<exists>p. tFinish x = Some p \<and> finalizePBs ns rs pb k = Some (PBNumber p) \<and>
        replacedBy ns pb k x"
    then obtain p where p: "finalizePBs ns rs pb k = Some (PBNumber p)"
      by blast
    then have "lookupPB (finalizePBs ns rs pb) k = Some (PBNumber p)"
      by (simp add: lookupPB_def)
    with n have "p \<le> t"
      by (simp add: improvesOn_number)
    with p show ?thesis by blast
  qed
qed

lemma improvesOn_cases:
  "improvesOn t None" "improvesOn t (Some PBNull)"
  "improvesOn t (Some (PBNumber p)) \<longleftrightarrow> t < p"
  "improvesOn t (Some (PBOther (Some p))) \<longleftrightarrow> t < p"
  "\<not> improvesOn t (Some (PBOther None))"
  by (simp_all add: improvesOn_def nullish_def numberLess_def)

text \<open>
  C7. Whatever the names, the runners and the table, for every name \<open>k\<close>:
  \<^item> a finish time replaces what the table gives for \<open>k\<close> when the table has no own
    property \<open>k\<close> and \<open>k\<close> is not the name of an inherited property, and when the table
    holds a number and the time is strictly smaller; it does not when the table holds a
    number that is not larger. (A name that the table only inherits, such as
    ``constructor'', gives a value that is neither \<open>null\<close> nor a number, which no time
    replaces: for such a name nothing is ever stored.)
  \<^item> if the time of a runner named \<open>k\<close> replaces what the table gave for \<open>k\<close>, then after
    \<open>finalizePBs\<close> the table holds for \<open>k\<close> a time that is not larger;
  \<^item> after \<open>finalizePBs\<close> the entry of \<open>k\<close> is the entry it had, or it is the finish time
    of a runner named \<open>k\<close>, and that time replaced what the table gave for \<open>k\<close> before;
  \<^item> after \<open>finalizePBs\<close> no runner has a finish time that would replace what the table
    gives for its name; and so \<open>finalizePBs\<close> applied a second time to the same runners
    changes nothing.
\<close>

theorem finalizePBs_min_merge:
  "(pb k = None \<and> k \<notin> set objectPrototypeNames \<longrightarrow> improvesOn t0 (lookupPB pb k)) \<and>
   (pb k = Some (PBNumber p0) \<longrightarrow> (improvesOn t0 (lookupPB pb k) \<longleftrightarrow> t0 < p0)) \<and>
   (pb k = None \<and> k \<in> set objectPrototypeNames \<longrightarrow> \<not> improvesOn t0 (lookupPB pb k)) \<and>
   (\<forall>r\<in>set rs. \<forall>t. tFinish r = Some t \<and> displayName ns (lane r) = k \<and>
        improvesOn t (lookupPB pb k) \<longrightarrow>
      (\<exists>p. finalizePBs ns rs pb k = Some (PBNumber p) \<and> p \<le> t)) \<and>
   (finalizePBs ns rs pb k = pb k \<or>
    (\<exists>r\<in>set rs. \<exists>t. tFinish r = Some t \<and> finalizePBs ns rs pb k = Some (PBNumber t) \<and>
       replacedBy ns pb k r)) \<and>
   (\<forall>r\<in>set rs. recorded ns (finalizePBs ns rs pb) r) \<and>
   finalizePBs ns rs (finalizePBs ns rs pb) = finalizePBs ns rs pb"
proof -
  have 1: "pb k = None \<and> k \<notin> set objectPrototypeNames \<longrightarrow> improvesOn t0 (lookupPB pb k)"
    by (simp add: lookupPB_def improvesOn_cases)
  have 2: "pb k = Some (PBNumber p0) \<longrightarrow> (improvesOn t0 (lookupPB pb k) \<longleftrightarrow> t0 < p0)"
    by (simp add: lookupPB_def improvesOn_cases)
  have 3: "pb k = None \<and> k \<in> set objectPrototypeNames \<longrightarrow> \<not> improvesOn t0 (lookupPB pb k)"
    by (simp add: lookupPB_def improvesOn_cases)
  have 4: "\<forall>r\<in>set rs. \<forall>t. tFinish r = Some t \<and> displayName ns (lane r) = k \<and>
        improvesOn t (lookupPB pb k) \<longrightarrow>
      (\<exists>p. finalizePBs ns rs pb k = Some (PBNumber p) \<and> p \<le> t)"
    using finalizePBs_stores [of _ rs _ ns k pb] by blast
  from 1 2 3 4 finalizePBs_only [of ns rs pb k] recorded_finalizePBs [of rs ns pb]
    finalizePBs_idem [of ns rs pb]
  show ?thesis by blast
qed

text \<open>
  With the example names and table, lane 3 (no name, so ``Lane 3'') beats the stored 13
  with 12.5, Ana does not beat her 12.5 with 14.3, and Bo, who had no entry, gets one.
\<close>

lemma displayName_exampleNames:
  "map (displayName exampleNames) [1, 2, 3, 4] = [''Ana'', ''Bo'', ''Lane 3'', ''Di'']"
  by (simp add: displayName_def exampleNames_def digitsOf.simps)

lemmas tables =
  finalizePBs_def finalizeOne_def improvesOn_def nullish_def numberLess_def lookupPB_def
  objectPrototypeNames_def displayName_def digitsOf.simps

theorem finalizePBs_min_merge_witness:
  "finishedField ! 2 \<in> set finishedField \<and>
   tFinish (finishedField ! 2) = Some 12.5 \<and>
   displayName exampleNames (lane (finishedField ! 2)) = ''Lane 3'' \<and>
   examplePBs ''Lane 3'' = Some (PBNumber 13) \<and>
   improvesOn 12.5 (lookupPB examplePBs ''Lane 3'') \<and>
   finalizePBs exampleNames finishedField examplePBs ''Lane 3'' = Some (PBNumber 12.5) \<and>
   finalizePBs exampleNames finishedField examplePBs ''Ana'' = Some (PBNumber 12.5) \<and>
   finalizePBs exampleNames finishedField examplePBs ''Bo'' = Some (PBNumber 13.35) \<and>
   finalizePBs exampleNames finishedField (finalizePBs exampleNames finishedField examplePBs) =
     finalizePBs exampleNames finishedField examplePBs"
proof -
  have r: "finishedField ! 2 \<in> set finishedField" "tFinish (finishedField ! 2) = Some 12.5"
    "displayName exampleNames (lane (finishedField ! 2)) = ''Lane 3''"
    by (simp_all add: finishedField_def displayName_def exampleNames_def digitsOf.simps)
  have e: "examplePBs ''Lane 3'' = Some (PBNumber 13)"
    by (simp add: examplePBs_def)
  note inst = finalizePBs_min_merge [of examplePBs "''Lane 3''" "12.5" 13 finishedField exampleNames]
  from inst e have i: "improvesOn 12.5 (lookupPB examplePBs ''Lane 3'')"
    by simp
  from inst r i obtain p where
    p: "finalizePBs exampleNames finishedField examplePBs ''Lane 3'' = Some (PBNumber p)" "p \<le> 12.5"
    by blast
  have v: "finalizePBs exampleNames finishedField examplePBs ''Lane 3'' = Some (PBNumber 12.5)"
    "finalizePBs exampleNames finishedField examplePBs ''Ana'' = Some (PBNumber 12.5)"
    "finalizePBs exampleNames finishedField examplePBs ''Bo'' = Some (PBNumber 13.35)"
    by (simp_all add: tables finishedField_def examplePBs_def exampleNames_def)
  from inst
  have "finalizePBs exampleNames finishedField (finalizePBs exampleNames finishedField examplePBs) =
     finalizePBs exampleNames finishedField examplePBs"
    by blast
  with r e i v show ?thesis by blast
qed

text \<open>
  The scenario of the specification: with an empty table Ana's 12.50 is stored; a later
  13.00 leaves it; a later 11.90 replaces it.
\<close>

lemma finalizeOne_scenario:
  "finalizeOne [''Ana''] \<lparr>lane = 1, posZ = 100, speed = 8, finished = True, tFinish = Some 12.5\<rparr>
     Map.empty ''Ana'' = Some (PBNumber 12.5) \<and>
   finalizeOne [''Ana''] \<lparr>lane = 1, posZ = 100, speed = 8, finished = True, tFinish = Some 13\<rparr>
     [''Ana'' \<mapsto> PBNumber 12.5] ''Ana'' = Some (PBNumber 12.5) \<and>
   finalizeOne [''Ana''] \<lparr>lane = 1, posZ = 100, speed = 8, finished = True, tFinish = Some 11.9\<rparr>
     [''Ana'' \<mapsto> PBNumber 12.5] ''Ana'' = Some (PBNumber 11.9)"
  by (simp add: tables)

text \<open>
  A runner named ``constructor'': the empty table gives the inherited function for the
  name, the time 13.35 is not stored, and the scoreboard, which has drawn the chip of
  lane 3, stops with a TypeError at the chip of lane 2. With the tampered table the time
  14.3 replaces the string that counts as 15, and 14.7 replaces \<open>null\<close>.
\<close>

lemma finalizePBs_inherited_name:
  "lookupPB Map.empty ''constructor'' = Some (PBOther None) \<and>
   finalizePBs inheritedNames finishedField Map.empty ''constructor'' = None \<and>
   finalizePBs inheritedNames finishedField Map.empty ''Cy'' = Some (PBNumber 12.5) \<and>
   finalizePBs inheritedNames finishedField tamperedPBs ''Ana'' = Some (PBNumber 14.3) \<and>
   finalizePBs inheritedNames finishedField tamperedPBs ''Di'' = Some (PBNumber 14.7)"
  by (simp add: tables finishedField_def tamperedPBs_def inheritedNames_def)

lemma updateScores_examples:
  "map chipName (fst (updateScores exampleNames examplePBs finishedField)) =
     [''Lane 3'', ''Bo'', ''Ana'', ''Di''] \<and>
   map chipPB (fst (updateScores exampleNames examplePBs finishedField)) =
     [Some 13, None, Some 12.5, None] \<and>
   map chipMedal (fst (updateScores exampleNames examplePBs finishedField)) =
     [Some 0, Some 1, Some 2, None] \<and>
   snd (updateScores exampleNames examplePBs finishedField) = None \<and>
   map chipName (fst (updateScores inheritedNames Map.empty finishedField)) = [''Cy''] \<and>
   snd (updateScores inheritedNames Map.empty finishedField) = Some TypeError"
  by (simp add: updateScores_def sortedRunners_def sortBy_def compareRunners_def chipOf_def
      tables finishedField_def examplePBs_def exampleNames_def inheritedNames_def)

subsection \<open>The camera\<close>

lemma fold_min_Min: "fold min xs (a::real) = Min (insert a (set xs))"
  by (metis Min.set_eq_fold list.simps(15))

lemma tan_half_fov_pos: "0 < tan (degToRad cameraFov / 2)"
  unfolding degToRad_def cameraFov_def
  by (rule tan_gt_zero) (use pi_gt_zero in auto)

text \<open>
  C8. For every non-empty list of runners the focus of the camera is the smallest
  \<open>position.z\<close> of the runners, the rearmost one, whatever average is passed in; the
  point the camera looks at lies 2 m ahead of it.
\<close>

theorem cameraFocusZ_rearmost:
  "rs \<noteq> [] \<Longrightarrow>
   cameraFocusZ avgZ rs = Min (posZ ` set rs) \<and>
   vz (camLookAt (fitCameraToTrack aspect avgZ rs c)) = Min (posZ ` set rs) + 2"
  by (cases rs) (auto simp: cameraFocusZ_def fitCameraToTrack_def fold_min_Min)

theorem cameraFocusZ_rearmost_witness:
  "runningField \<noteq> [] \<and>
   cameraFocusZ (averageZ runningField) runningField = 85 \<and>
   averageZ runningField = 93.1 \<and>
   vz (camLookAt (fitCameraToTrack 1.5 (averageZ runningField) runningField camera0)) = 87"
proof -
  have ne: "runningField \<noteq> []"
    by (simp add: runningField_def)
  have m: "Min (posZ ` set runningField) = 85"
    by (simp add: runningField_def)
  have a: "averageZ runningField = 93.1"
    by (simp add: averageZ_def runningField_def)
  have "cameraFocusZ (averageZ runningField) runningField = 85 \<and>
        vz (camLookAt (fitCameraToTrack 1.5 (averageZ runningField) runningField camera0)) = 87"
    using cameraFocusZ_rearmost [OF ne, of "averageZ runningField" "1.5" camera0]
    by (simp only: m) simp
  with ne a show ?thesis by blast
qed

text \<open>
  C9. For every aspect ratio between 0.3 and 4.0 the distance of the camera lies between
  7 and 16. (In this range the divisor of \<open>d\<close> is positive, so the quotient of the model
  is the quotient of the program.)
\<close>

theorem cameraDistance_clamped:
  "0.3 \<le> aspect \<Longrightarrow> aspect \<le> 4.0 \<Longrightarrow>
   0 < tan (degToRad cameraFov / 2) * aspect \<and>
   7 \<le> cameraDistance aspect \<and> cameraDistance aspect \<le> 16"
  using tan_half_fov_pos by (simp add: cameraDistance_def clamp_def)

theorem cameraDistance_clamped_witness:
  "(0.3::real) \<le> 1.5 \<and> (1.5::real) \<le> 4.0 \<and>
   7 \<le> cameraDistance 1.5 \<and> cameraDistance 1.5 \<le> 16"
  using cameraDistance_clamped [of "1.5"] by simp

subsection \<open>Runs of the handlers\<close>

lemma runners_countdownStep [simp]: "runners (countdownStep now k s) = runners s"
  by (simp add: countdownStep_def raceGo_def Let_def)

lemma runners_startRace [simp]: "runners (startRace now s) = runners s"
  by (simp add: startRace_def)

lemma runners_timerFired [simp]: "runners (timerFired k now s) = runners s"
  by (simp add: timerFired_def)

lemma runners_resetRace [simp]: "runners (resetRace s) = map resetRunner (runners s)"
  by (simp add: resetRace_def)

lemma runners_saveNames [simp]: "runners (saveNames ns s) = runners s"
  by (simp add: saveNames_def)

lemma advanceLoop_shape:
  "advanceLoop ns pb dt el before rs = (out, e) \<Longrightarrow>
   \<exists>rs'. out = before @ rs' \<and> list_all2 (\<lambda>r r'. r' = r \<or> r' = advance dt el r) rs rs'"
proof (induction rs arbitrary: before out e)
  case Nil
  then show ?case by simp
next
  case (Cons r rs)
  let ?r' = "advance dt el r"
  show ?case
  proof (cases "advanceLoop ns pb dt el (before @ [?r']) rs = (out, e)")
    case True
    then obtain rs' where "out = (before @ [?r']) @ rs'"
      "list_all2 (\<lambda>r r'. r' = r \<or> r' = advance dt el r) rs rs'"
      using Cons.IH by blast
    then have "out = before @ (?r' # rs') \<and>
        list_all2 (\<lambda>r r'. r' = r \<or> r' = advance dt el r) (r # rs) (?r' # rs')"
      by simp
    then show ?thesis by blast
  next
    case False
    with Cons.prems have "out = before @ (?r' # rs)"
      by (auto split: if_splits option.splits)
    moreover have "list_all2 (\<lambda>r r'. r' = r \<or> r' = advance dt el r) (r # rs) (?r' # rs)"
      by (simp add: list_all2_refl)
    ultimately show ?thesis by blast
  qed
qed

lemma runners_raceTick:
  "list_all2 (\<lambda>r r'. r' = r \<or> r' = advance dt ((now - tStart s) / 1000) r)
     (runners s) (runners (raceTick dt now s))"
proof -
  obtain out e where o:
    "advanceLoop (names s) (pbs s) dt ((now - tStart s) / 1000) [] (runners s) = (out, e)"
    by (cases "advanceLoop (names s) (pbs s) dt ((now - tStart s) / 1000) [] (runners s)")
  then have "list_all2 (\<lambda>r r'. r' = r \<or> r' = advance dt ((now - tStart s) / 1000) r)
      (runners s) out"
    using advanceLoop_shape [OF o] by simp
  moreover have "runners (raceTick dt now s) = out"
    using o by (cases e) (simp_all add: raceTick_def)
  ultimately show ?thesis by simp
qed

lemma runners_frame_idle: "\<not> raceStarted s \<Longrightarrow> runners (frame now aspect s) = runners s"
  by (simp add: frame_def Let_def)

lemma runners_frame:
  "list_all2
     (\<lambda>r r'. r' = r \<or>
        r' = advance (min 0.05 ((now - lastT s) / 1000)) ((now - tStart s) / 1000) r)
     (runners s) (runners (frame now aspect s))"
proof (cases "raceStarted s")
  case True
  let ?s1 = "s\<lparr>lastT := now,
      cam := fitCameraToTrack aspect (averageZ (runners s)) (runners s) (cam s)\<rparr>"
  have "frame now aspect s = raceTick (min 0.05 ((now - lastT s) / 1000)) now ?s1"
    using True by (simp add: frame_def Let_def)
  then show ?thesis
    using runners_raceTick [of "min 0.05 ((now - lastT s) / 1000)" now ?s1] by simp
next
  case False
  then show ?thesis
    by (simp add: runners_frame_idle list_all2_refl)
qed

lemma frame_keeps:
  assumes "\<forall>r\<in>set (runners s). P r"
    and "\<And>r. P r \<Longrightarrow>
      P (advance (min 0.05 ((now - lastT s) / 1000)) ((now - tStart s) / 1000) r)"
  shows "\<forall>r\<in>set (runners (frame now aspect s)). P r"
proof
  fix r'
  assume "r' \<in> set (runners (frame now aspect s))"
  then obtain i where i: "i < length (runners (frame now aspect s))"
    "r' = runners (frame now aspect s) ! i"
    by (auto simp: in_set_conv_nth)
  from runners_frame [of now s aspect] i(1) have l: "i < length (runners s)"
    by (simp add: list_all2_lengthD)
  with runners_frame [of now s aspect]
  have "runners (frame now aspect s) ! i = runners s ! i \<or>
      runners (frame now aspect s) ! i =
        advance (min 0.05 ((now - lastT s) / 1000)) ((now - tStart s) / 1000) (runners s ! i)"
    by (rule list_all2_nthD)
  moreover from l assms(1) have "P (runners s ! i)"
    by simp
  ultimately show "P r'"
    using assms(2) i(2) by auto
qed

lemma lastT_raceTick: "lastT (raceTick dt now s) = lastT s"
  by (simp add: raceTick_def split: prod.splits option.splits)

lemma lastT_countdownStep [simp]: "lastT (countdownStep now k s) = lastT s"
  by (simp add: countdownStep_def raceGo_def Let_def)

lemma lastT_handle:
  "lastT (handle e s) = (case e of Frame now aspect \<Rightarrow> now | _ \<Rightarrow> lastT s)"
  by (cases e)
     (simp_all add: startRace_def timerFired_def resetRace_def saveNames_def frame_def
        lastT_raceTick Let_def)

lemma run_Nil [simp]: "run [] s = s"
  by (simp add: run_def)

lemma run_Cons [simp]: "run (e # es) s = run es (handle e s)"
  by (simp add: run_def)

lemma run_append: "run (es @ fs) s = run fs (run es s)"
  by (simp add: run_def)

lemma length_runners_handle: "length (runners (handle e s)) = length (runners s)"
proof (cases e)
  case (Frame now aspect)
  then show ?thesis
    using runners_frame [of now s aspect] by (simp add: list_all2_lengthD)
qed simp_all

lemma length_runners_run: "length (runners (run es s)) = length (runners s)"
  by (induction es arbitrary: s) (simp_all add: length_runners_handle)

lemma speed_advance: "speed (advance dt el r) = speed r"
  by (simp add: advance_def)

lemma speeds_frame: "map speed (runners (frame now aspect s)) = map speed (runners s)"
proof (rule nth_equalityI)
  show len: "length (map speed (runners (frame now aspect s))) = length (map speed (runners s))"
    using runners_frame [of now s aspect] by (simp add: list_all2_lengthD)
  fix i
  assume "i < length (map speed (runners (frame now aspect s)))"
  with len have i: "i < length (runners s)" "i < length (runners (frame now aspect s))"
    by simp_all
  from runners_frame [of now s aspect] i(1)
  have "runners (frame now aspect s) ! i = runners s ! i \<or>
      runners (frame now aspect s) ! i =
        advance (min 0.05 ((now - lastT s) / 1000)) ((now - tStart s) / 1000) (runners s ! i)"
    by (rule list_all2_nthD)
  then have "speed (runners (frame now aspect s) ! i) = speed (runners s ! i)"
    by (auto simp: speed_advance)
  with i show "map speed (runners (frame now aspect s)) ! i = map speed (runners s) ! i"
    by simp
qed

lemma speeds_handle: "map speed (runners (handle e s)) = map speed (runners s)"
  by (cases e) (simp_all add: speeds_frame comp_def resetRunner_def)

lemma speeds_run: "map speed (runners (run es s)) = map speed (runners s)"
  by (induction es arbitrary: s) (simp_all add: speeds_handle)

lemma advance_finished: "finished r \<Longrightarrow> advance dt el r = r"
  by (simp add: advance_def)

lemma finished_kept_frame:
  "i < length (runners s) \<Longrightarrow> finished (runners s ! i) \<Longrightarrow>
   runners (frame now aspect s) ! i = runners s ! i"
proof -
  assume i: "i < length (runners s)" and f: "finished (runners s ! i)"
  from runners_frame [of now s aspect] i
  have "runners (frame now aspect s) ! i = runners s ! i \<or>
      runners (frame now aspect s) ! i =
        advance (min 0.05 ((now - lastT s) / 1000)) ((now - tStart s) / 1000) (runners s ! i)"
    by (rule list_all2_nthD)
  with f show ?thesis
    by (auto simp: advance_finished)
qed

lemma finished_kept_handle:
  "e \<noteq> Reset \<Longrightarrow> i < length (runners s) \<Longrightarrow> finished (runners s ! i) \<Longrightarrow>
   runners (handle e s) ! i = runners s ! i"
  by (cases e) (simp_all add: finished_kept_frame)

lemma finished_kept_run:
  "Reset \<notin> set es \<Longrightarrow> i < length (runners s) \<Longrightarrow> finished (runners s ! i) \<Longrightarrow>
   runners (run es s) ! i = runners s ! i"
proof (induction es arbitrary: s)
  case Nil
  then show ?case by simp
next
  case (Cons e es)
  from Cons.prems have e: "e \<noteq> Reset" and es: "Reset \<notin> set es" by auto
  have k: "runners (handle e s) ! i = runners s ! i"
    using e Cons.prems(2,3) by (rule finished_kept_handle)
  have "runners (run es (handle e s)) ! i = runners (handle e s) ! i"
    using es Cons.prems(2,3) k by (intro Cons.IH) (simp_all add: length_runners_handle)
  with k show ?case by simp
qed

lemma consistent_advance: "consistent r \<Longrightarrow> consistent (advance dt el r)"
  by (auto simp: consistent_def advance_def)

lemma consistent_resetRunner: "consistent (resetRunner r)"
  by (simp add: consistent_def resetRunner_def startZ_def finishZ_def)

lemma consistent_loadRunner: "consistent (loadRunner u i)"
  by (simp add: consistent_def loadRunner_def startZ_def finishZ_def)

lemma consistent_handle:
  "\<forall>r\<in>set (runners s). consistent r \<Longrightarrow> \<forall>r\<in>set (runners (handle e s)). consistent r"
proof (cases e)
  case (Frame now aspect)
  assume "\<forall>r\<in>set (runners s). consistent r"
  then have "\<forall>r\<in>set (runners (frame now aspect s)). consistent r"
    by (rule frame_keeps) (rule consistent_advance)
  with Frame show ?thesis by simp
qed (auto simp: consistent_resetRunner)

lemma consistent_run:
  "\<forall>r\<in>set (runners s). consistent r \<Longrightarrow> \<forall>r\<in>set (runners (run es s)). consistent r"
proof (induction es arbitrary: s)
  case Nil
  then show ?case by simp
next
  case (Cons e es)
  from Cons.prems have "\<forall>r\<in>set (runners (handle e s)). consistent r"
    by (rule consistent_handle)
  then show ?case by (simp add: Cons.IH)
qed

lemma consistent_init: "\<forall>r\<in>set (runners (initState u sn sp t0)). consistent r"
  by (auto simp: initState_def loadRunners_def consistent_loadRunner)

lemma onTrack_advance: "onTrack r \<Longrightarrow> 0 \<le> dt \<Longrightarrow> onTrack (advance dt el r)"
  by (auto simp: onTrack_def advance_def startZ_def finishZ_def)

lemma onTrack_resetRunner: "onTrack r \<Longrightarrow> onTrack (resetRunner r)"
  by (simp add: onTrack_def resetRunner_def startZ_def finishZ_def)

lemma onTrack_handle:
  assumes "\<forall>r\<in>set (runners s). onTrack r"
    and "case e of Frame now aspect \<Rightarrow> lastT s \<le> now | _ \<Rightarrow> True"
  shows "\<forall>r\<in>set (runners (handle e s)). onTrack r"
proof (cases e)
  case (Frame now aspect)
  with assms(2) have "0 \<le> min 0.05 ((now - lastT s) / 1000)"
    by simp
  with assms(1) have "\<forall>r\<in>set (runners (frame now aspect s)). onTrack r"
    by (intro frame_keeps) (simp_all add: onTrack_advance)
  with Frame show ?thesis by simp
qed (insert assms(1), auto simp: onTrack_resetRunner)

lemma onTrack_run:
  "\<forall>r\<in>set (runners s). onTrack r \<Longrightarrow> sorted (lastT s # frameTimes es) \<Longrightarrow>
   \<forall>r\<in>set (runners (run es s)). onTrack r"
proof (induction es arbitrary: s)
  case Nil
  then show ?case by simp
next
  case (Cons e es)
  have ok: "case e of Frame now aspect \<Rightarrow> lastT s \<le> now | _ \<Rightarrow> True"
    using Cons.prems(2) by (cases e) simp_all
  have 1: "\<forall>r\<in>set (runners (handle e s)). onTrack r"
    using Cons.prems(1) ok by (rule onTrack_handle)
  have 2: "sorted (lastT (handle e s) # frameTimes es)"
    using Cons.prems(2) unfolding lastT_handle by (cases e) auto
  from 1 2 show ?case by (simp add: Cons.IH)
qed

lemma onTrack_init:
  "\<forall>i<4. 0 \<le> u i \<and> u i < 1 \<Longrightarrow> \<forall>r\<in>set (runners (initState u sn sp t0)). onTrack r"
  by (auto simp: initState_def loadRunners_def loadRunner_def onTrack_def startZ_def finishZ_def)

lemma loadRunners_four:
  "loadRunners u = [loadRunner u 0, loadRunner u 1, loadRunner u 2, loadRunner u 3]"
proof -
  have "[0..<4] = [0, 1, 2, Suc 2]"
    by (simp add: upt_rec)
  then show ?thesis
    by (simp add: loadRunners_def)
qed

lemmas handlers =
  startRace_def countdownStep_def timerFired_def raceGo_def resetRace_def frame_def
  raceTick_def advance_def resetRunner_def saveNames_def Let_def
  initState_def loadRunners_four loadRunner_def startZ_def finishZ_def

lemmas scoreboard =
  updateScores_def sortedRunners_def sortBy_def compareRunners_def chipOf_def lookupPB_def
  objectPrototypeNames_def displayName_def digitsOf.simps

lemma countdown_runs_out:
  "k < length (countdowns s) \<Longrightarrow> length ts = pendingFires (countdowns s ! k) \<Longrightarrow>
   run (map (Timer k) ts) s =
     raceGo (last ts)
       (s\<lparr>cues := cues s @ map CountBeep (drop (cdI (countdowns s ! k)) (cdLabels (countdowns s ! k))),
          countdowns := take k (countdowns s) @ drop (Suc k) (countdowns s)\<rparr>)"
proof (induction ts arbitrary: s)
  case Nil
  then show ?case by (simp add: pendingFires_def split: if_splits)
next
  case (Cons t ts)
  let ?c = "countdowns s ! k"
  show ?case
  proof (cases "cdGap ?c")
    case False
    let ?s1 = "timerFired k t s"
    have s1: "?s1 = s\<lparr>countdowns := (countdowns s)[k := ?c\<lparr>cdGap := True\<rparr>]\<rparr>"
      using False Cons.prems(1) by (simp add: timerFired_def)
    have k1: "k < length (countdowns ?s1)" using Cons.prems(1) by (simp add: s1)
    have c1: "countdowns ?s1 ! k = ?c\<lparr>cdGap := True\<rparr>" using Cons.prems(1) by (simp add: s1)
    have n1: "length ts = pendingFires (countdowns ?s1 ! k)"
      using Cons.prems(2) False by (simp add: c1 pendingFires_def)
    have ne: "ts \<noteq> []" using n1 by (auto simp: pendingFires_def c1)
    have "run (map (Timer k) ts) ?s1 = raceGo (last ts)
       (?s1\<lparr>cues := cues ?s1 @ map CountBeep (drop (cdI (countdowns ?s1 ! k)) (cdLabels (countdowns ?s1 ! k))),
          countdowns := take k (countdowns ?s1) @ drop (Suc k) (countdowns ?s1)\<rparr>)"
      using k1 n1 by (rule Cons.IH)
    then show ?thesis
      using ne Cons.prems(1) by (simp add: c1) (simp add: s1)
  next
    case True
    show ?thesis
    proof (cases "cdI ?c \<ge> length (cdLabels ?c)")
      case over: True
      have "ts = []" using Cons.prems(2) True over by (simp add: pendingFires_def)
      then show ?thesis
        using True over Cons.prems(1) by (simp add: timerFired_def countdownStep_def Let_def)
    next
      case more: False
      let ?c1 = "?c\<lparr>cdI := Suc (cdI ?c), cdGap := False\<rparr>"
      let ?s1 = "timerFired k t s"
      have s1: "?s1 = s\<lparr>cues := cues s @ [CountBeep (cdLabels ?c ! cdI ?c)],
                         countdowns := (countdowns s)[k := ?c1]\<rparr>"
        using True more Cons.prems(1) by (simp add: timerFired_def countdownStep_def Let_def)
      have k1: "k < length (countdowns ?s1)" using Cons.prems(1) by (simp add: s1)
      have c1: "countdowns ?s1 ! k = ?c1" using Cons.prems(1) by (simp add: s1)
      have n1: "length ts = pendingFires (countdowns ?s1 ! k)"
        using Cons.prems(2) True more by (simp add: c1 pendingFires_def)
      have ne: "ts \<noteq> []" using n1 by (auto simp: pendingFires_def c1)
      have d: "drop (cdI ?c) (cdLabels ?c) = cdLabels ?c ! cdI ?c # drop (Suc (cdI ?c)) (cdLabels ?c)"
        using more by (simp add: Cons_nth_drop_Suc)
      have "run (map (Timer k) ts) ?s1 = raceGo (last ts)
         (?s1\<lparr>cues := cues ?s1 @ map CountBeep (drop (cdI (countdowns ?s1 ! k)) (cdLabels (countdowns ?s1 ! k))),
            countdowns := take k (countdowns ?s1) @ drop (Suc k) (countdowns ?s1)\<rparr>)"
        using k1 n1 by (rule Cons.IH)
      then show ?thesis
        using ne Cons.prems(1) by (simp add: c1 d) (simp add: s1)
    qed
  qed
qed

lemma raceStarted_resetRace [simp]: "\<not> raceStarted (resetRace s)"
  by (simp add: resetRace_def)

lemma cues_resetRace [simp]: "cues (resetRace s) = cues s"
  by (simp add: resetRace_def)

lemma countdowns_resetRace [simp]: "countdowns (resetRace s) = countdowns s"
  by (simp add: resetRace_def)

lemma atStart_handle:
  "\<not> raceStarted s \<Longrightarrow> \<forall>r\<in>set (runners s). posZ r = startZ \<Longrightarrow>
   \<forall>r\<in>set (runners (handle e s)). posZ r = startZ"
  by (cases e) (auto simp: runners_frame_idle resetRunner_def)

lemma atStart_run:
  "\<forall>n<length es. \<not> raceStarted (run (take n es) s) \<Longrightarrow>
   \<forall>r\<in>set (runners s). posZ r = startZ \<Longrightarrow>
   \<forall>r\<in>set (runners (run es s)). posZ r = startZ"
proof (induction es arbitrary: s)
  case Nil
  then show ?case by simp
next
  case (Cons e es)
  from Cons.prems(1) have "\<not> raceStarted (run (take 0 (e # es)) s)"
    by blast
  then have idle: "\<not> raceStarted s" by simp
  have later: "\<forall>n<length es. \<not> raceStarted (run (take n es) (handle e s))"
  proof (intro allI impI)
    fix n
    assume "n < length es"
    then have "Suc n < length (e # es)" by simp
    with Cons.prems(1) have "\<not> raceStarted (run (take (Suc n) (e # es)) s)"
      by blast
    then show "\<not> raceStarted (run (take n es) (handle e s))" by simp
  qed
  have "\<forall>r\<in>set (runners (handle e s)). posZ r = startZ"
    using idle Cons.prems(2) by (rule atStart_handle)
  with later have "\<forall>r\<in>set (runners (run es (handle e s))). posZ r = startZ"
    by (rule Cons.IH)
  then show ?case by simp
qed

lemma startRace_running: "raceStarted s \<Longrightarrow> startRace now s = s"
  by (simp add: startRace_def)

subsection \<open>The flags of a runner\<close>

text \<open>
  C3. In every state that the handlers reach from the loaded page, every runner has
  \<open>finished\<close> exactly when it has a finish time, and exactly when it stands on the finish
  line or beyond. And from any state, a runner that has finished keeps \<open>finished\<close> and its
  finish time through every run of handlers without a reset.
\<close>

theorem runner_flags_consistent:
  "(\<forall>r\<in>set (runners (run es (initState u sn sp t0))).
      (finished r \<longleftrightarrow> tFinish r \<noteq> None) \<and> (tFinish r \<noteq> None \<longleftrightarrow> finishZ \<le> posZ r)) \<and>
   (Reset \<notin> set fs \<longrightarrow> i < length (runners s) \<longrightarrow> finished (runners s ! i) \<longrightarrow>
      finished (runners (run fs s) ! i) \<and>
      tFinish (runners (run fs s) ! i) = tFinish (runners s ! i))"
proof -
  have "\<forall>r\<in>set (runners (run es (initState u sn sp t0))). consistent r"
    using consistent_init by (rule consistent_run)
  then have 1: "\<forall>r\<in>set (runners (run es (initState u sn sp t0))).
      (finished r \<longleftrightarrow> tFinish r \<noteq> None) \<and> (tFinish r \<noteq> None \<longleftrightarrow> finishZ \<le> posZ r)"
    by (simp add: consistent_def)
  have 2: "finished (runners (run fs s) ! i) \<and>
      tFinish (runners (run fs s) ! i) = tFinish (runners s ! i)"
    if "Reset \<notin> set fs" "i < length (runners s)" "finished (runners s ! i)"
    using finished_kept_run [OF that] that(3) by simp
  from 1 2 show ?thesis by blast
qed

theorem runner_flags_consistent_witness:
  "list_all (\<lambda>r. (finished r \<longleftrightarrow> tFinish r \<noteq> None) \<and> (tFinish r \<noteq> None \<longleftrightarrow> finishZ \<le> posZ r))
     (runners (run firstAttempt exampleInit)) \<and>
   Reset \<notin> set [Frame 13500 1.5, Frame 13516 1.5] \<and>
   2 < length (runners midRace) \<and>
   finished (runners midRace ! 2) \<and>
   finished (runners (run [Frame 13500 1.5, Frame 13516 1.5] midRace) ! 2) \<and>
   tFinish (runners (run [Frame 13500 1.5, Frame 13516 1.5] midRace) ! 2) = Some 12.5 \<and>
   map tFinish (runners (run [Frame 13500 1.5, Frame 13516 1.5] midRace)) =
     [None, Some 12.5, Some 12.5, None]"
proof -
  note inst = runner_flags_consistent
    [of firstAttempt "\<lambda>i. real i / 4" None None 0 "[Frame 13500 1.5, Frame 13516 1.5]" 2 midRace]
  have a: "list_all (\<lambda>r. (finished r \<longleftrightarrow> tFinish r \<noteq> None) \<and> (tFinish r \<noteq> None \<longleftrightarrow> finishZ \<le> posZ r))
     (runners (run firstAttempt exampleInit))"
    using inst unfolding exampleInit_def list_all_iff by blast
  have h: "Reset \<notin> set [Frame 13500 1.5, Frame 13516 1.5]" "2 < length (runners midRace)"
    "finished (runners midRace ! 2)" "tFinish (runners midRace ! 2) = Some 12.5"
    by (simp_all add: midRace_def runningField_def)
  have b: "finished (runners (run [Frame 13500 1.5, Frame 13516 1.5] midRace) ! 2) \<and>
     tFinish (runners (run [Frame 13500 1.5, Frame 13516 1.5] midRace) ! 2) = Some 12.5"
    using inst h by simp
  have c: "map tFinish (runners (run [Frame 13500 1.5, Frame 13516 1.5] midRace)) =
     [None, Some 12.5, Some 12.5, None]"
    by (simp add: midRace_def runningField_def exampleNames_def examplePBs_def handlers
        scoreboard)
  from a h(1,2,3) b c show ?thesis by blast
qed

text \<open>
  C5. A runner that has finished has the same position, the same flag and the same
  finish time after any number of frames of the animation loop.
\<close>

theorem finished_runner_frozen:
  "i < length (runners s) \<Longrightarrow> finished (runners s ! i) \<Longrightarrow>
   posZ (runners (run (map (\<lambda>(now, aspect). Frame now aspect) ts) s) ! i) = posZ (runners s ! i) \<and>
   finished (runners (run (map (\<lambda>(now, aspect). Frame now aspect) ts) s) ! i) \<and>
   tFinish (runners (run (map (\<lambda>(now, aspect). Frame now aspect) ts) s) ! i) =
     tFinish (runners s ! i)"
proof -
  assume i: "i < length (runners s)" and f: "finished (runners s ! i)"
  have "Reset \<notin> set (map (\<lambda>(now, aspect). Frame now aspect) ts)"
    by auto
  then have "runners (run (map (\<lambda>(now, aspect). Frame now aspect) ts) s) ! i = runners s ! i"
    using i f by (rule finished_kept_run)
  with f show ?thesis by simp
qed

theorem finished_runner_frozen_witness:
  "2 < length (runners midRace) \<and> finished (runners midRace ! 2) \<and>
   posZ (runners (run [Frame 13500 1.5, Frame 13516 1.5] midRace) ! 2) = 100 \<and>
   finished (runners (run [Frame 13500 1.5, Frame 13516 1.5] midRace) ! 2) \<and>
   tFinish (runners (run [Frame 13500 1.5, Frame 13516 1.5] midRace) ! 2) = Some 12.5 \<and>
   posZ (runners (run [Frame 13500 1.5, Frame 13516 1.5] midRace) ! 0) = 87.724"
proof -
  have h: "2 < length (runners midRace)" "finished (runners midRace ! 2)"
    "posZ (runners midRace ! 2) = 100" "tFinish (runners midRace ! 2) = Some 12.5"
    by (simp_all add: midRace_def runningField_def)
  have "posZ (runners (run [Frame 13500 1.5, Frame 13516 1.5] midRace) ! 2) = 100 \<and>
      finished (runners (run [Frame 13500 1.5, Frame 13516 1.5] midRace) ! 2) \<and>
      tFinish (runners (run [Frame 13500 1.5, Frame 13516 1.5] midRace) ! 2) = Some 12.5"
    using finished_runner_frozen [OF h(1,2), of "[(13500, 1.5), (13516, 1.5)]"] h(3,4)
    by simp
  moreover have "posZ (runners (run [Frame 13500 1.5, Frame 13516 1.5] midRace) ! 0) = 87.724"
    by (simp add: midRace_def runningField_def exampleNames_def examplePBs_def handlers
        scoreboard)
  ultimately show ?thesis using h(1,2) by blast
qed

text \<open>
  A frame cut short. On the broken board lane 2 crosses the line in the frame at 13500
  ms: its three writes are made, \<open>updateScores\<close> raises its error at the chip of
  ``constructor'', and the callback ends. Lane 1, before it in the loop, has advanced;
  lane 4, after it, has not; the race is still started. In the race with the example
  names the same frame advances lane 4 too.
\<close>

lemma frame_cut_short:
  "snd (updateScores (names brokenBoard) (pbs brokenBoard)
          (runners (frame 13500 1.5 brokenBoard))) = Some TypeError \<and>
   map posZ (runners (frame 13500 1.5 brokenBoard)) = [87.612, 100, 100, 85] \<and>
   map finished (runners (frame 13500 1.5 brokenBoard)) = [False, True, True, False] \<and>
   raceStarted (frame 13500 1.5 brokenBoard) \<and>
   map posZ (runners (frame 13500 1.5 midRace)) = [87.612, 100, 100, 85.1088]"
  by (simp add: brokenBoard_def midRace_def runningField_def inheritedNames_def
      exampleNames_def examplePBs_def handlers scoreboard)

subsection \<open>Between the lines\<close>

text \<open>
  C10. If the four values of \<open>Math.random()\<close> lie in the interval from 0 to 1 and the
  clock read by the animation loop never goes back, every runner is between the start
  line and the finish line in every state that the handlers reach from the loaded page.
\<close>

theorem runner_between_lines:
  "\<forall>i<4. 0 \<le> u i \<and> u i < 1 \<Longrightarrow> sorted (t0 # frameTimes es) \<Longrightarrow>
   \<forall>r\<in>set (runners (run es (initState u sn sp t0))). startZ \<le> posZ r \<and> posZ r \<le> finishZ"
proof -
  assume u: "\<forall>i<4. 0 \<le> u i \<and> u i < 1" and t: "sorted (t0 # frameTimes es)"
  have "lastT (initState u sn sp t0) = t0"
    by (simp add: initState_def)
  with t have "sorted (lastT (initState u sn sp t0) # frameTimes es)"
    by simp
  with onTrack_init [OF u] have "\<forall>r\<in>set (runners (run es (initState u sn sp t0))). onTrack r"
    by (rule onTrack_run)
  then show ?thesis by (simp add: onTrack_def)
qed

theorem runner_between_lines_witness:
  "sorted (0 # frameTimes firstAttempt) \<and>
   list_all (\<lambda>r. startZ \<le> posZ r \<and> posZ r \<le> finishZ) (runners (run firstAttempt exampleInit)) \<and>
   map posZ (runners (run firstAttempt exampleInit)) = [0.429, 0.4653, 0.5016, 0.5379]"
proof -
  have u: "\<forall>i<4. 0 \<le> real i / 4 \<and> real i / 4 < 1"
    by simp
  have t: "sorted (0 # frameTimes firstAttempt)"
    by (simp add: firstAttempt_def countdownTimers_def)
  have "list_all (\<lambda>r. startZ \<le> posZ r \<and> posZ r \<le> finishZ) (runners (run firstAttempt exampleInit))"
    using runner_between_lines [of "\<lambda>i. real i / 4" 0 firstAttempt None None, OF u t]
    unfolding exampleInit_def list_all_iff by blast
  moreover have "map posZ (runners (run firstAttempt exampleInit)) = [0.429, 0.4653, 0.5016, 0.5379]"
    by (simp add: firstAttempt_def countdownTimers_def exampleInit_def handlers)
  ultimately show ?thesis using t by blast
qed

subsection \<open>Speeds\<close>

text \<open>
  C4, as stated, asks for a speed sampled anew for every race. It is not: in the example
  the speeds of the second race, run after a reset, are those of the first race, which
  are those computed at load from 0, 0.25, 0.5 and 0.75. No handler has a random value to
  sample from: \<open>Math.random()\<close> is called for the speed in \<open>loadRunners\<close> only, and
  \<open>loadRunners\<close> is called once, when the page loads.
\<close>

theorem speed_not_resampled:
  "raceStarted (run firstAttempt exampleInit) \<and>
   map speed (runners (run firstAttempt exampleInit)) = [6.5, 7.05, 7.6, 8.15] \<and>
   raceStarted (run (firstAttempt @ secondAttempt) exampleInit) \<and>
   tStart (run (firstAttempt @ secondAttempt) exampleInit) = 8280 \<and>
   map speed (runners (run (firstAttempt @ secondAttempt) exampleInit)) = [6.5, 7.05, 7.6, 8.15] \<and>
   map posZ (runners (run (firstAttempt @ secondAttempt) exampleInit)) =
     [0.325, 0.3525, 0.38, 0.4075]"
  by (simp add: firstAttempt_def secondAttempt_def countdownTimers_def exampleInit_def handlers)

text \<open>
  C4, amended. The speed of each of the four runners is computed once, at load, as
  6.5 + 2.2 times the value \<open>Math.random()\<close> returned, so it lies between 6.5 and 8.7,
  both included, when that value lies in the interval from 0 to 1. (Over the reals of
  the model the speed stays below 8.7 when the value stays below 1; the doubles of the
  program can round the sum up to 8.7 itself, so the statement does not exclude it.) No
  handler changes the speed: after every run of handlers, resets and further races
  included, every runner has the speed it had before.
\<close>

theorem speed_sampled_at_load:
  "(i < 4 \<longrightarrow>
      speed (runners (initState u sn sp t0) ! i) = 6.5 + u i * 2.2 \<and>
      (0 \<le> u i \<and> u i < 1 \<longrightarrow>
         6.5 \<le> speed (runners (initState u sn sp t0) ! i) \<and>
         speed (runners (initState u sn sp t0) ! i) \<le> 8.7)) \<and>
   length (runners (initState u sn sp t0)) = 4 \<and>
   map speed (runners (run es s)) = map speed (runners s)"
proof -
  have "speed (runners (initState u sn sp t0) ! i) = 6.5 + u i * 2.2" if "i < 4"
    using that by (simp add: initState_def loadRunners_def loadRunner_def)
  moreover have "length (runners (initState u sn sp t0)) = 4"
    by (simp add: initState_def loadRunners_def)
  ultimately show ?thesis
    using speeds_run [of es s] by auto
qed

theorem speed_sampled_at_load_witness:
  "(2::nat) < 4 \<and> (0::real) \<le> real 2 / 4 \<and> real 2 / 4 < (1::real) \<and>
   speed (runners exampleInit ! 2) = 7.6 \<and>
   6.5 \<le> speed (runners exampleInit ! 2) \<and> speed (runners exampleInit ! 2) \<le> 8.7 \<and>
   map speed (runners (run (firstAttempt @ secondAttempt) exampleInit)) =
     map speed (runners exampleInit)"
proof -
  have v: "speed (runners exampleInit ! 2) = 7.6"
    using speed_sampled_at_load [of 2 "\<lambda>i. real i / 4" None None 0 "[]" exampleInit]
    by (simp add: exampleInit_def)
  have b: "6.5 \<le> speed (runners exampleInit ! 2) \<and> speed (runners exampleInit ! 2) \<le> 8.7"
    using speed_sampled_at_load [of 2 "\<lambda>i. real i / 4" None None 0 "[]" exampleInit]
    unfolding exampleInit_def by simp
  have "map speed (runners (run (firstAttempt @ secondAttempt) exampleInit)) =
     map speed (runners exampleInit)"
    using speed_sampled_at_load
      [of 2 "\<lambda>i. real i / 4" None None 0 "firstAttempt @ secondAttempt" exampleInit]
    by blast
  with v b show ?thesis by simp
qed

subsection \<open>Reset and start during a countdown\<close>

text \<open>
  C1, as stated, fails. In the example the reset comes when the countdown has shown
  ``3'' only. The seven timers that the countdown still has to run do run: the three
  other labels are shown, each with its beep, the gun is fired, the race is started, and
  at the next frame the runners have left the start line.
\<close>

theorem reset_mid_countdown_race_starts:
  "cues (run resetTrace exampleInit) = [CountBeep ''3''] \<and>
   length (countdowns (run resetTrace exampleInit)) = 1 \<and>
   \<not> raceStarted (run resetTrace exampleInit) \<and>
   cues (run (resetTrace @ afterReset) exampleInit) =
     [CountBeep ''3'', CountBeep ''2'', CountBeep ''1'', CountBeep ''GO!'', Gunshot] \<and>
   raceStarted (run (resetTrace @ afterReset) exampleInit) \<and>
   map posZ (runners (run (resetTrace @ afterReset) exampleInit)) = [0.325, 0.3525, 0.38, 0.4075]"
  by (simp add: resetTrace_def afterReset_def countdownTimers_def exampleInit_def handlers)

text \<open>
  C1, amended. A reset while a countdown is pending stops the race clock
  (\<open>raceStarted\<close> is false), puts every runner on the start line with \<open>finished\<close> and the
  finish time cleared, requests no sound and leaves the countdown pending. The runners
  stay on the start line for as long as \<open>raceStarted\<close> is false. The countdown goes on:
  when its timer has fired as many times as it still had to, every label that was left
  has had its beep, in order, the gun has been fired after them, the time of the last
  timer is the start time and the race is started.
\<close>

theorem resetRace_keeps_countdown:
  "k < length (countdowns s) \<Longrightarrow>
   \<not> raceStarted (resetRace s) \<and>
   cues (resetRace s) = cues s \<and>
   countdowns (resetRace s) = countdowns s \<and>
   list_all (\<lambda>r. posZ r = startZ \<and> \<not> finished r \<and> tFinish r = None) (runners (resetRace s)) \<and>
   ((\<forall>n<length es. \<not> raceStarted (run (take n es) (resetRace s))) \<longrightarrow>
      (\<forall>r\<in>set (runners (run es (resetRace s))). posZ r = startZ)) \<and>
   (length ts = pendingFires (countdowns s ! k) \<longrightarrow>
      cues (run (map (Timer k) ts) (resetRace s)) =
        cues s @ map CountBeep (drop (cdI (countdowns s ! k)) (cdLabels (countdowns s ! k))) @
        [Gunshot] \<and>
      tStart (run (map (Timer k) ts) (resetRace s)) = last ts \<and>
      raceStarted (run (map (Timer k) ts) (resetRace s)))"
proof -
  assume k: "k < length (countdowns s)"
  have start: "\<forall>r\<in>set (runners (resetRace s)). posZ r = startZ"
    by (simp add: resetRunner_def)
  have 1: "list_all (\<lambda>r. posZ r = startZ \<and> \<not> finished r \<and> tFinish r = None)
      (runners (resetRace s))"
    by (simp add: list_all_iff resetRunner_def)
  have 2: "\<forall>r\<in>set (runners (run es (resetRace s))). posZ r = startZ"
    if "\<forall>n<length es. \<not> raceStarted (run (take n es) (resetRace s))"
    using that start by (rule atStart_run)
  have 3: "cues (run (map (Timer k) ts) (resetRace s)) =
        cues s @ map CountBeep (drop (cdI (countdowns s ! k)) (cdLabels (countdowns s ! k))) @
        [Gunshot] \<and>
      tStart (run (map (Timer k) ts) (resetRace s)) = last ts \<and>
      raceStarted (run (map (Timer k) ts) (resetRace s))"
    if "length ts = pendingFires (countdowns s ! k)"
  proof -
    have "k < length (countdowns (resetRace s))"
      using k by simp
    moreover have "length ts = pendingFires (countdowns (resetRace s) ! k)"
      using that by simp
    ultimately show ?thesis
      by (simp add: countdown_runs_out raceGo_def)
  qed
  from 1 2 3 show ?thesis by simp
qed

theorem resetRace_keeps_countdown_witness:
  "0 < length (countdowns (run [Start 0, Timer 0 700] exampleInit)) \<and>
   pendingFires (countdowns (run [Start 0, Timer 0 700] exampleInit) ! 0) = 7 \<and>
   \<not> raceStarted (run resetTrace exampleInit) \<and>
   cues (run (resetTrace @ map (Timer 0) [820, 1520, 1640, 2340, 2460, 3160, 3280]) exampleInit) =
     [CountBeep ''3'', CountBeep ''2'', CountBeep ''1'', CountBeep ''GO!'', Gunshot] \<and>
   tStart (run (resetTrace @ map (Timer 0) [820, 1520, 1640, 2340, 2460, 3160, 3280]) exampleInit) =
     3280 \<and>
   raceStarted (run (resetTrace @ map (Timer 0) [820, 1520, 1640, 2340, 2460, 3160, 3280]) exampleInit) \<and>
   list_all (\<lambda>r. posZ r = startZ)
     (runners (run (resetTrace @ [Timer 0 820, Frame 830 1.5, Timer 0 1520]) exampleInit))"
proof -
  define s where "s = run [Start 0, Timer 0 700] exampleInit"
  define ts :: "real list" where "ts = [820, 1520, 1640, 2340, 2460, 3160, 3280]"
  define es where "es = [Timer 0 820, Frame 830 1.5, Timer 0 1520]"
  have r: "run resetTrace exampleInit = resetRace s"
    by (simp add: resetTrace_def s_def)
  have k: "0 < length (countdowns s)"
    by (simp add: s_def exampleInit_def handlers)
  have c: "countdowns s ! 0 = \<lparr>cdLabels = [''3'', ''2'', ''1'', ''GO!''], cdI = 1, cdGap = True\<rparr>"
    "cues s = [CountBeep ''3'']"
    by (simp_all add: s_def exampleInit_def handlers)
  have p: "pendingFires (countdowns s ! 0) = 7"
    by (simp add: c pendingFires_def)
  have n: "length ts = pendingFires (countdowns s ! 0)"
    by (simp add: p ts_def)
  have idle: "\<forall>n<length es. \<not> raceStarted (run (take n es) (resetRace s))"
  proof (intro allI impI)
    fix n
    assume "n < length es"
    then consider "n = 0" | "n = 1" | "n = 2"
      by (auto simp: es_def less_Suc_eq numeral_3_eq_3)
    then show "\<not> raceStarted (run (take n es) (resetRace s))"
      by cases (simp_all add: es_def s_def exampleInit_def handlers)
  qed
  note inst = resetRace_keeps_countdown [OF k, of es ts]
  have a: "\<not> raceStarted (resetRace s)"
    using inst by blast
  have b: "cues (run (map (Timer 0) ts) (resetRace s)) =
        [CountBeep ''3'', CountBeep ''2'', CountBeep ''1'', CountBeep ''GO!'', Gunshot] \<and>
      tStart (run (map (Timer 0) ts) (resetRace s)) = 3280 \<and>
      raceStarted (run (map (Timer 0) ts) (resetRace s))"
  proof -
    from inst n have "cues (run (map (Timer 0) ts) (resetRace s)) =
        cues s @ map CountBeep (drop (cdI (countdowns s ! 0)) (cdLabels (countdowns s ! 0))) @
        [Gunshot] \<and>
      tStart (run (map (Timer 0) ts) (resetRace s)) = last ts \<and>
      raceStarted (run (map (Timer 0) ts) (resetRace s))"
      by blast
    moreover have "last ts = 3280"
      by (simp add: ts_def)
    ultimately show ?thesis
      by (simp add: c)
  qed
  have d: "list_all (\<lambda>r. posZ r = startZ) (runners (run es (resetRace s)))"
    using inst idle unfolding list_all_iff by blast
  from k p a b d show ?thesis
    unfolding run_append r s_def ts_def es_def by blast
qed

text \<open>
  C2. \<open>startRace\<close> returns at once when the race is running, and only then. While a
  countdown is pending \<open>raceStarted\<close> is still false, and a second click starts a second
  countdown: the state changes, two countdowns are pending and ``3'' has had two beeps.
  Both countdowns run to their end: every label has two beeps, the gun is fired twice,
  and the second gun sets the start time again, 100 ms after the first, when the runners
  are on their way.
\<close>

theorem startRace_during_countdown:
  "\<not> raceStarted (startRace 0 exampleInit) \<and>
   length (countdowns (startRace 0 exampleInit)) = 1 \<and>
   startRace 100 (startRace 0 exampleInit) \<noteq> startRace 0 exampleInit \<and>
   length (countdowns (startRace 100 (startRace 0 exampleInit))) = 2 \<and>
   cues (startRace 100 (startRace 0 exampleInit)) = [CountBeep ''3'', CountBeep ''3''] \<and>
   cues (run doubleStart exampleInit) =
     [CountBeep ''3'', CountBeep ''3'', CountBeep ''2'', CountBeep ''2'',
      CountBeep ''1'', CountBeep ''1'', CountBeep ''GO!'', CountBeep ''GO!'',
      Gunshot, Gunshot] \<and>
   tStart (run (take 17 doubleStart) exampleInit) = 3280 \<and>
   tStart (run doubleStart exampleInit) = 3380"
proof -
  have 1: "cues (startRace 0 exampleInit) = [CountBeep ''3'']"
    "cues (startRace 100 (startRace 0 exampleInit)) = [CountBeep ''3'', CountBeep ''3'']"
    "\<not> raceStarted (startRace 0 exampleInit)"
    "length (countdowns (startRace 0 exampleInit)) = 1"
    "length (countdowns (startRace 100 (startRace 0 exampleInit))) = 2"
    by (simp_all add: exampleInit_def handlers)
  from 1(1,2) have 2: "startRace 100 (startRace 0 exampleInit) \<noteq> startRace 0 exampleInit"
    by auto
  have 3: "cues (run doubleStart exampleInit) =
     [CountBeep ''3'', CountBeep ''3'', CountBeep ''2'', CountBeep ''2'',
      CountBeep ''1'', CountBeep ''1'', CountBeep ''GO!'', CountBeep ''GO!'',
      Gunshot, Gunshot]"
    "tStart (run (take 17 doubleStart) exampleInit) = 3280"
    "tStart (run doubleStart exampleInit) = 3380"
    by (simp_all add: doubleStart_def exampleInit_def handlers)
  from 1 2 3 show ?thesis by blast
qed

end
